theory Spec2Isabelle
  imports Main
begin

section \<open>Data model of mini_nano.c\<close>

text \<open>
  A row is the C struct \<^verbatim>\<open>erow\<close>: a byte count and a heap buffer. The field \<open>chars\<close> holds
  the bytes of the buffer that precede its terminating NUL, which every row operation of
  the source keeps at index \<open>size\<close>; the terminator itself is not stored in the model.
  Bytes are values of type \<^typ>\<open>char\<close> (eight bits).
\<close>

record erow =
  size_row :: int
  chars :: "char list"

text \<open>
  The global \<^verbatim>\<open>struct editorConfig E\<close>. The array \<^verbatim>\<open>E.rows\<close> together with its element
  count \<^verbatim>\<open>E.numrows\<close> is the list \<open>rows\<close>; \<^verbatim>\<open>statusmsg_time\<close> and \<^verbatim>\<open>orig_termios\<close> are left
  out. Every operation below takes the state and returns the new one.
\<close>

record editorConfig =
  cx :: int
  cy :: int
  rowoff :: int
  coloff :: int
  screenrows :: int
  screencols :: int
  rows :: "erow list"
  dirty :: int
  filename :: string
  statusmsg :: string

definition numrows :: "editorConfig \<Rightarrow> int" where
  "numrows E = int (length (rows E))"

text \<open>The C library's \<^verbatim>\<open>strdup\<close>: a copy of the bytes up to the first NUL.\<close>

definition strdup :: "char list \<Rightarrow> char list" where
  "strdup s = takeWhile (\<lambda>c. c \<noteq> CHR 0x00) s"

section \<open>Row operations\<close>

text \<open>\<^verbatim>\<open>editorAppendRow(s, len)\<close>: copies \<open>len\<close> bytes of \<open>s\<close> into a new last row.\<close>

definition editorAppendRow :: "char list \<Rightarrow> nat \<Rightarrow> editorConfig \<Rightarrow> editorConfig" where
  "editorAppendRow s len E =
     E\<lparr>rows := rows E @ [\<lparr>size_row = int len, chars = take len s\<rparr>], dirty := 1\<rparr>"

definition editorFreeRows :: "editorConfig \<Rightarrow> editorConfig" where
  "editorFreeRows E = E\<lparr>rows := []\<rparr>"

text \<open>
  The two row-shifting loops of the source.
  \<^verbatim>\<open>for (i = from; i < n; i++) rows[i] = rows[i + 1];\<close> and
  \<^verbatim>\<open>for (i = from; i > lo; i--) rows[i] = rows[i - 1];\<close>
\<close>

function shift_rows_up :: "nat \<Rightarrow> nat \<Rightarrow> erow list \<Rightarrow> erow list" where
  "shift_rows_up i n rs =
     (if i < n then shift_rows_up (Suc i) n (rs[i := rs ! Suc i]) else rs)"
  by pat_completeness auto
termination
  by (relation "measure (\<lambda>(i, n, rs). n - i)") auto

fun shift_rows_down :: "nat \<Rightarrow> nat \<Rightarrow> erow list \<Rightarrow> erow list" where
  "shift_rows_down i lo rs =
     (if lo < i then shift_rows_down (i - 1) lo (rs[i := rs ! (i - 1)]) else rs)"

declare shift_rows_up.simps [simp del]
declare shift_rows_down.simps [simp del]

text \<open>
  The editing operations index \<^verbatim>\<open>E.rows\<close> and the row buffers without any check. An access
  outside the array or outside a row's buffer is undefined behaviour in C; the model
  returns \<open>None\<close> there and \<open>Some\<close> of the new state otherwise. It returns \<open>None\<close> as well
  when the cursor column lies outside the row, where \<^verbatim>\<open>memmove\<close> gets a negative length or the
  row is left without its terminator.
\<close>

definition editorInsertChar :: "int \<Rightarrow> editorConfig \<Rightarrow> editorConfig option" where
  "editorInsertChar c E =
     (let E1 = (if cy E = numrows E then editorAppendRow [] 0 E else E) in
      if 0 \<le> cy E1 \<and> cy E1 < numrows E1 then
        (let row = rows E1 ! nat (cy E1) in
         if 0 \<le> cx E1 \<and> cx E1 \<le> size_row row \<and> nat (size_row row) \<le> length (chars row) then
           Some (E1\<lparr>rows := (rows E1)[nat (cy E1) :=
                         \<lparr>size_row = size_row row + 1,
                          chars = take (nat (cx E1)) (chars row) @ char_of c #
                                  drop (nat (cx E1)) (take (nat (size_row row)) (chars row))\<rparr>],
                     cx := cx E1 + 1,
                     dirty := 1\<rparr>)
         else None)
      else None)"

definition editorDelChar :: "editorConfig \<Rightarrow> editorConfig option" where
  "editorDelChar E =
     (if cy E = numrows E then Some E
      else if cx E = 0 \<and> cy E = 0 then Some E
      else if 0 \<le> cy E \<and> cy E < numrows E then
        (let row = rows E ! nat (cy E) in
         if cx E > 0 then
           (if cx E \<le> size_row row \<and> nat (size_row row) \<le> length (chars row) then
              Some (E\<lparr>rows := (rows E)[nat (cy E) :=
                           \<lparr>size_row = size_row row - 1,
                            chars = take (nat (cx E - 1)) (chars row) @
                                    drop (nat (cx E)) (take (nat (size_row row)) (chars row))\<rparr>],
                      cx := cx E - 1,
                      dirty := 1\<rparr>)
            else None)
         else if 0 \<le> cy E - 1 then
           (let prev = rows E ! nat (cy E - 1);
                prev_size = size_row prev
            in if 0 \<le> prev_size \<and> nat prev_size \<le> length (chars prev) \<and>
                  0 \<le> size_row row \<and> nat (size_row row) \<le> length (chars row) then
                 (let joined = \<lparr>size_row = prev_size + size_row row,
                                chars = take (nat prev_size) (chars prev) @
                                        take (nat (size_row row)) (chars row)\<rparr>;
                      rs1 = (rows E)[nat (cy E - 1) := joined];
                      rs2 = shift_rows_up (nat (cy E)) (nat (numrows E - 1)) rs1
                  in Some (E\<lparr>rows := take (nat (numrows E - 1)) rs2,
                             cy := cy E - 1,
                             cx := prev_size,
                             dirty := 1\<rparr>))
               else None)
         else None)
      else None)"

definition editorInsertNewline :: "editorConfig \<Rightarrow> editorConfig option" where
  "editorInsertNewline E =
     (if cx E = 0 then
        (let E1 = editorAppendRow [] 0 E in
         if 0 \<le> cy E \<and> cy E + 1 < numrows E1 then
           (let at = nat (cy E);
                rs1 = shift_rows_down (nat (numrows E1 - 1)) at (rows E1);
                rs2 = rs1[Suc at := (rs1 ! Suc at)\<lparr>chars := strdup (chars (rs1 ! at))\<rparr>];
                rs3 = rs2[Suc at := (rs2 ! Suc at)\<lparr>size_row := size_row (rs2 ! at)\<rparr>];
                rs4 = rs3[at := (rs3 ! at)\<lparr>size_row := 0\<rparr>];
                rs5 = rs4[at := (rs4 ! at)\<lparr>chars := strdup []\<rparr>]
            in Some (E1\<lparr>rows := rs5, cy := cy E + 1, cx := 0, dirty := 1\<rparr>))
         else None)
      else if 0 \<le> cy E \<and> cy E < numrows E then
        (let row = rows E ! nat (cy E) in
         if 0 \<le> cx E \<and> cx E \<le> size_row row \<and> nat (size_row row) \<le> length (chars row) then
           (let newlen = size_row row - cx E;
                newchars = take (nat newlen) (drop (nat (cx E)) (chars row));
                E1 = E\<lparr>rows := (rows E)[nat (cy E) :=
                            \<lparr>size_row = cx E, chars = take (nat (cx E)) (chars row)\<rparr>]\<rparr>;
                E2 = editorAppendRow newchars (nat newlen) E1;
                rs1 = shift_rows_down (nat (numrows E2 - 1)) (nat (cy E + 1)) (rows E2);
                rs2 = rs1[nat (cy E + 1) := \<lparr>size_row = newlen, chars = newchars\<rparr>]
            in Some (E2\<lparr>rows := rs2, cy := cy E + 1, cx := 0, dirty := 1\<rparr>))
         else None)
      else None)"

section \<open>Cursor movement\<close>

text \<open>
  The statement \<^verbatim>\<open>if (E.cy < E.numrows && E.cx > E.rows[E.cy].size) E.cx = E.rows[E.cy].size;\<close>
  that follows both vertical moves.
\<close>

definition clamp_cx :: "editorConfig \<Rightarrow> editorConfig option" where
  "clamp_cx E =
     (if cy E < numrows E then
        (if 0 \<le> cy E then
           (if cx E > size_row (rows E ! nat (cy E))
            then Some (E\<lparr>cx := size_row (rows E ! nat (cy E))\<rparr>) else Some E)
         else None)
      else Some E)"

text \<open>The key codes \<^verbatim>\<open>'A' + 1000\<close> .. \<^verbatim>\<open>'D' + 1000\<close> of the four arrow keys.\<close>

definition ARROW_UP :: int where "ARROW_UP = of_char CHR ''A'' + 1000"
definition ARROW_DOWN :: int where "ARROW_DOWN = of_char CHR ''B'' + 1000"
definition ARROW_RIGHT :: int where "ARROW_RIGHT = of_char CHR ''C'' + 1000"
definition ARROW_LEFT :: int where "ARROW_LEFT = of_char CHR ''D'' + 1000"

definition editorMoveCursor :: "int \<Rightarrow> editorConfig \<Rightarrow> editorConfig option" where
  "editorMoveCursor key E =
     (if key = ARROW_UP then
        clamp_cx (if cy E > 0 then E\<lparr>cy := cy E - 1\<rparr> else E)
      else if key = ARROW_DOWN then
        clamp_cx (if cy E < numrows E then E\<lparr>cy := cy E + 1\<rparr> else E)
      else if key = ARROW_RIGHT then
        (if cy E < numrows E then
           (if 0 \<le> cy E then
              (if cx E < size_row (rows E ! nat (cy E)) then Some (E\<lparr>cx := cx E + 1\<rparr>)
               else if cx E = size_row (rows E ! nat (cy E))
                    then Some (E\<lparr>cy := cy E + 1, cx := 0\<rparr>)
               else Some E)
            else None)
         else Some E)
      else if key = ARROW_LEFT then
        (if cx E > 0 then Some (E\<lparr>cx := cx E - 1\<rparr>)
         else if cy E > 0 then
           (if cy E - 1 < numrows E
            then Some (E\<lparr>cy := cy E - 1, cx := size_row (rows E ! nat (cy E - 1))\<rparr>)
            else None)
         else Some E)
      else Some E)"

section \<open>Well-formed editor states\<close>

text \<open>
  Every row's \<open>size\<close> is the number of its bytes, the cursor row is one of the rows or the
  virtual row \<open>numrows\<close>, and the cursor column lies within the cursor row, the virtual row
  having length 0.
\<close>

definition mk_row :: "char list \<Rightarrow> erow" where
  "mk_row s = \<lparr>size_row = int (length s), chars = s\<rparr>"

definition row_length :: "editorConfig \<Rightarrow> int \<Rightarrow> int" where
  "row_length E i = (if 0 \<le> i \<and> i < numrows E then size_row (rows E ! nat i) else 0)"

definition row_content :: "editorConfig \<Rightarrow> int \<Rightarrow> char list" where
  "row_content E i =
     (if 0 \<le> i \<and> i < numrows E
      then take (nat (size_row (rows E ! nat i))) (chars (rows E ! nat i)) else [])"

definition rows_ok :: "editorConfig \<Rightarrow> bool" where
  "rows_ok E = list_all (\<lambda>r. size_row r = int (length (chars r))) (rows E)"

definition cursor_ok :: "editorConfig \<Rightarrow> bool" where
  "cursor_ok E =
     (0 \<le> cy E \<and> cy E \<le> numrows E \<and> 0 \<le> cx E \<and> cx E \<le> row_length E (cy E))"

definition valid :: "editorConfig \<Rightarrow> bool" where
  "valid E = (rows_ok E \<and> cursor_ok E)"

text \<open>\<^verbatim>\<open>initEditor\<close>, for a terminal of the given size.\<close>

definition initEditor :: "int \<Rightarrow> int \<Rightarrow> editorConfig" where
  "initEditor wrows wcols =
     \<lparr>cx = 0, cy = 0, rowoff = 0, coloff = 0,
      screenrows = wrows - 2, screencols = wcols,
      rows = [], dirty = 0, filename = [], statusmsg = []\<rparr>"

section \<open>File input and output\<close>

text \<open>
  \<^verbatim>\<open>getline\<close> on the unread rest of a file: the bytes up to and including the next newline,
  or all that is left when there is no newline; \<open>None\<close> stands for the return value -1 at
  the end of the file.
\<close>

definition getline :: "char list \<Rightarrow> (char list \<times> char list) option" where
  "getline fp =
     (if fp = [] then None
      else (case dropWhile (\<lambda>c. c \<noteq> CHR 0x0A) fp of
              [] \<Rightarrow> Some (fp, [])
            | nl # rest \<Rightarrow> Some (takeWhile (\<lambda>c. c \<noteq> CHR 0x0A) fp @ [nl], rest)))"

text \<open>
  \<^verbatim>\<open>while (len > 0 && (line[len-1] == '\n' || line[len-1] == '\r')) len--;\<close>
\<close>

fun strip_len :: "char list \<Rightarrow> nat \<Rightarrow> nat" where
  "strip_len line 0 = 0"
| "strip_len line (Suc n) =
     (if line ! n = CHR 0x0A \<or> line ! n = CHR 0x0D then strip_len line n else Suc n)"

lemma getline_shorter: "getline fp = Some (line, rest) \<Longrightarrow> length rest < length fp"
proof -
  assume g: "getline fp = Some (line, rest)"
  have "length (dropWhile (\<lambda>c. c \<noteq> CHR 0x0A) fp) \<le> length fp"
    by (rule length_dropWhile_le)
  with g show ?thesis
    by (auto simp: getline_def split: if_splits list.splits)
qed

text \<open>The reading loop of \<^verbatim>\<open>editorOpen\<close>, on the content of the opened file.\<close>

function read_rows :: "char list \<Rightarrow> editorConfig \<Rightarrow> editorConfig" where
  "read_rows fp E =
     (case getline fp of
        None \<Rightarrow> E
      | Some (line, rest) \<Rightarrow>
          read_rows rest (editorAppendRow line (strip_len line (length line)) E))"
  by pat_completeness auto
termination
  by (relation "measure (\<lambda>(fp, E). length fp)") (auto dest: getline_shorter)

declare read_rows.simps [simp del]

text \<open>
  \<^verbatim>\<open>editorOpen(filename)\<close>. The second argument is what \<^verbatim>\<open>fopen(filename, "r")\<close> gives:
  \<open>Inl\<close> of the \<^verbatim>\<open>strerror\<close> text when the file cannot be opened, \<open>Inr\<close> of the file's bytes
  otherwise. \<^verbatim>\<open>strncpy\<close> keeps at most 511 bytes of the name and \<^verbatim>\<open>snprintf\<close> at most 79
  bytes of the message.
\<close>

definition editorOpen :: "string \<Rightarrow> string + char list \<Rightarrow> editorConfig \<Rightarrow> editorConfig" where
  "editorOpen fname fp E =
     (let E1 = editorFreeRows E;
          E2 = E1\<lparr>filename := take 511 fname\<rparr>
      in case fp of
           Inl err \<Rightarrow> E2\<lparr>statusmsg := take 79 (''Could not open: '' @ err)\<rparr>
         | Inr content \<Rightarrow>
             (read_rows content E2)\<lparr>dirty := 0, statusmsg := take 79 (''Opened '' @ fname)\<rparr>)"

text \<open>
  The buffer that \<^verbatim>\<open>editorSave\<close> builds: \<^verbatim>\<open>size\<close> bytes of each row followed by a newline.
  \<^verbatim>\<open>memcpy\<close> reads outside the buffer of a row whose \<^verbatim>\<open>size\<close> exceeds it: \<open>None\<close>.
\<close>

fun build_buffer :: "erow list \<Rightarrow> char list option" where
  "build_buffer [] = Some []"
| "build_buffer (r # rs) =
     (if 0 \<le> size_row r \<and> nat (size_row r) \<le> length (chars r) then
        (case build_buffer rs of
           None \<Rightarrow> None
         | Some rest \<Rightarrow> Some (take (nat (size_row r)) (chars r) @ CHR 0x0A # rest))
      else None)"

text \<open>
  What the system calls of \<^verbatim>\<open>editorSave\<close> do on a path: \<^verbatim>\<open>open\<close> fails (with the \<^verbatim>\<open>strerror\<close>
  text), \<^verbatim>\<open>ftruncate\<close> fails, \<^verbatim>\<open>write\<close> writes fewer bytes than asked, or all of them succeed.
  \<open>editorSave\<close> is given this for every path, and returns the calls it made with its
  return value and the new state, or \<open>None\<close> when building the buffer reads outside a row.
\<close>

datatype save_result = OpenFails string | TruncateFails | WriteFails string | WriteOk

datatype syscall =
  Open string | Ftruncate string | Write string "char list" | Fopen string

definition editorSave ::
  "string option \<Rightarrow> (string \<Rightarrow> save_result) \<Rightarrow> editorConfig \<Rightarrow>
   (int \<times> editorConfig \<times> syscall list) option" where
  "editorSave fname_arg io E =
     (let fallback = (if filename E \<noteq> [] then Some (filename E) else None);
          fname = (case fname_arg of
                     None \<Rightarrow> fallback
                   | Some f \<Rightarrow> if f = [] then fallback else Some f)
      in case fname of
           None \<Rightarrow> Some (0, E\<lparr>statusmsg := ''No filename''\<rparr>, [])
         | Some f \<Rightarrow>
             (case io f of
                OpenFails err \<Rightarrow>
                  Some (0, E\<lparr>statusmsg := take 79 (''Can't save: '' @ err)\<rparr>, [Open f])
              | TruncateFails \<Rightarrow>
                  (case build_buffer (rows E) of
                     None \<Rightarrow> None
                   | Some buf \<Rightarrow> Some (0, E, [Open f, Ftruncate f]))
              | WriteFails err \<Rightarrow>
                  (case build_buffer (rows E) of
                     None \<Rightarrow> None
                   | Some buf \<Rightarrow>
                       Some (0, E\<lparr>statusmsg := take 79 (''Write error: '' @ err)\<rparr>,
                             [Open f, Ftruncate f, Write f buf]))
              | WriteOk \<Rightarrow>
                  (case build_buffer (rows E) of
                     None \<Rightarrow> None
                   | Some buf \<Rightarrow>
                       Some (1, E\<lparr>dirty := 0, statusmsg := take 79 (''Saved to '' @ f)\<rparr>,
                             [Open f, Ftruncate f, Write f buf]))))"

section \<open>Decoding keys\<close>

text \<open>
  The terminal input is the list of the outcomes of the successive \<^verbatim>\<open>read(STDIN_FILENO, &c, 1)\<close>
  calls: one byte, nothing within the timeout (return value 0), or a failure (return value
  -1, with \<open>True\<close> when \<^verbatim>\<open>errno\<close> is \<^verbatim>\<open>EAGAIN\<close>). When the list is used up, nothing more ever
  arrives and every further read times out.
\<close>

datatype read_result = Got char | Timeout | Failed bool

text \<open>
  A function that reads keys returns its value with the unread input, calls \<^verbatim>\<open>die\<close>, or
  waits for a key for ever.
\<close>

datatype 'a io = Return 'a "read_result list" | Died | Waiting

text \<open>\<^verbatim>\<open>while ((nread = read(...)) != 1) if (nread == -1 && errno != EAGAIN) die("read");\<close>\<close>

fun first_byte :: "read_result list \<Rightarrow> char io" where
  "first_byte [] = Waiting"
| "first_byte (Got c # rs) = Return c rs"
| "first_byte (Timeout # rs) = first_byte rs"
| "first_byte (Failed eagain # rs) = (if eagain then first_byte rs else Died)"

fun read1 :: "read_result list \<Rightarrow> read_result \<times> read_result list" where
  "read1 [] = (Timeout, [])"
| "read1 (r # rs) = (r, rs)"

text \<open>
  The value of a plain \<^verbatim>\<open>char\<close> as an \<^verbatim>\<open>int\<close>. Whether plain \<^verbatim>\<open>char\<close> is signed is left to the
  C implementation, so it is a parameter of the decoder.
\<close>

definition char_to_int :: "bool \<Rightarrow> char \<Rightarrow> int" where
  "char_to_int char_signed c =
     (if char_signed \<and> (128::int) \<le> of_char c then of_char c - 256 else of_char c)"

definition ESC :: char where "ESC = CHR 0x1B"

definition editorReadKey :: "bool \<Rightarrow> read_result list \<Rightarrow> int io" where
  "editorReadKey char_signed inp =
     (case first_byte inp of
        Waiting \<Rightarrow> Waiting
      | Died \<Rightarrow> Died
      | Return c r0 \<Rightarrow>
          if c = ESC then
            (case read1 r0 of
               (Got s0, r1) \<Rightarrow>
                 (case read1 r1 of
                    (Got s1, r2) \<Rightarrow>
                      if s0 = CHR ''['' then
                        (if (of_char CHR ''0'' :: nat) \<le> of_char s1 \<and>
                            (of_char s1 :: nat) \<le> of_char CHR ''9'' then
                           (case read1 r2 of
                              (Got s2, r3) \<Rightarrow>
                                if s2 = CHR ''~'' \<and> s1 = CHR ''3'' then Return 127 r3
                                else Return (of_char ESC) r3
                            | (_, r3) \<Rightarrow> Return (of_char ESC) r3)
                         else if s1 = CHR ''A'' then Return (of_char CHR ''A'' + 1000) r2
                         else if s1 = CHR ''B'' then Return (of_char CHR ''B'' + 1000) r2
                         else if s1 = CHR ''C'' then Return (of_char CHR ''C'' + 1000) r2
                         else if s1 = CHR ''D'' then Return (of_char CHR ''D'' + 1000) r2
                         else Return (of_char ESC) r2)
                      else Return (of_char ESC) r2
                  | (_, r2) \<Rightarrow> Return (of_char ESC) r2)
             | (_, r1) \<Rightarrow> Return (of_char ESC) r1)
          else Return (char_to_int char_signed c) r0)"

text \<open>
  \<^verbatim>\<open>iscntrl\<close> in the C locale, which the program never changes. The C standard defines it on
  the values of \<^verbatim>\<open>unsigned char\<close> and \<^verbatim>\<open>EOF\<close>; on any other value the model answers \<open>False\<close>.
\<close>

definition iscntrl :: "int \<Rightarrow> bool" where
  "iscntrl c = (0 \<le> c \<and> c < 32 \<or> c = 127)"

lemma first_byte_shorter: "first_byte inp = Return c r \<Longrightarrow> length r < length inp"
  by (induction inp rule: first_byte.induct) (auto split: if_splits)

lemma read1_shorter: "read1 inp = (x, r) \<Longrightarrow> length r \<le> length inp"
  by (cases inp) auto

lemma editorReadKey_shorter:
  assumes "editorReadKey sg inp = Return c r"
  shows "length r < length inp"
proof -
  obtain b r0 where fb: "first_byte inp = Return b r0"
    using assms by (auto simp: editorReadKey_def split: io.splits)
  have l0: "length r0 < length inp" using fb by (rule first_byte_shorter)
  obtain x1 r1 where x1: "read1 r0 = (x1, r1)" by (cases "read1 r0")
  obtain x2 r2 where x2: "read1 r1 = (x2, r2)" by (cases "read1 r1")
  obtain x3 r3 where x3: "read1 r2 = (x3, r3)" by (cases "read1 r2")
  have l: "length r1 \<le> length r0" "length r2 \<le> length r1" "length r3 \<le> length r2"
    using x1 x2 x3 by (auto dest: read1_shorter)
  have "r = r0 \<or> r = r1 \<or> r = r2 \<or> r = r3"
    using assms fb x1 x2 x3
    by (auto simp: editorReadKey_def split: if_splits read_result.splits)
  with l l0 show ?thesis by auto
qed

section \<open>The prompt\<close>

text \<open>
  The loop of \<^verbatim>\<open>editorPrompt\<close>, with the text typed so far. The buffer comes from \<^verbatim>\<open>malloc\<close> and
  is not initialised: until the first byte is stored in it, \<^verbatim>\<open>snprintf\<close> formats the status
  message from whatever the fresh buffer holds. \<open>fresh\<close> is \<open>Some\<close> of these bytes as long
  as nothing has been stored, and \<open>None\<close> afterwards.
\<close>

function editorPrompt_loop ::
  "bool \<Rightarrow> string \<Rightarrow> string option \<Rightarrow> string \<Rightarrow> read_result list \<Rightarrow> editorConfig \<Rightarrow>
   (string option \<times> editorConfig) io" where
  "editorPrompt_loop sg prompt fresh buf inp E =
     (let E1 = E\<lparr>statusmsg := take 79 (prompt @ (case fresh of Some g \<Rightarrow> g | None \<Rightarrow> buf))\<rparr> in
      case editorReadKey sg inp of
        Waiting \<Rightarrow> Waiting
      | Died \<Rightarrow> Died
      | Return c rest \<Rightarrow>
          if c = of_char CHR 0x0D then
            (if buf \<noteq> [] then Return (Some buf, E1) rest else Return (None, E1) rest)
          else if c = 127 \<or> c = 8 then
            (if buf \<noteq> [] then editorPrompt_loop sg prompt None (butlast buf) rest E1
             else editorPrompt_loop sg prompt fresh buf rest E1)
          else if \<not> iscntrl c \<and> c < 128 then
            editorPrompt_loop sg prompt None (buf @ [char_of c]) rest E1
          else if c = of_char ESC then Return (None, E1) rest
          else editorPrompt_loop sg prompt fresh buf rest E1)"
  by pat_completeness auto
termination
  by (relation "measure (\<lambda>(sg, prompt, fresh, buf, inp, E). length inp)")
     (auto dest: editorReadKey_shorter)

declare editorPrompt_loop.simps [simp del]

text \<open>\<^verbatim>\<open>editorPrompt(prompt)\<close>, with what its fresh buffer holds.\<close>

definition editorPrompt ::
  "bool \<Rightarrow> string \<Rightarrow> string \<Rightarrow> read_result list \<Rightarrow> editorConfig \<Rightarrow>
   (string option \<times> editorConfig) io" where
  "editorPrompt sg junk prompt inp E = editorPrompt_loop sg prompt (Some junk) [] inp E"

section \<open>Dispatching a key\<close>

text \<open>
  The world, as the editor meets it: what opening a path for reading gives, what the
  system calls of a save to a path do, and what the fresh buffer of the prompt with a
  given label holds.
\<close>

record world =
  fs_read :: "string \<Rightarrow> string + char list"
  fs_write :: "string \<Rightarrow> save_result"
  fresh_buffer :: "string \<Rightarrow> string"

text \<open>
  One call of \<^verbatim>\<open>editorProcessKeypress\<close> returns to the main loop with a new state, the
  unread input and the system calls made on files, or ends the process with \<^verbatim>\<open>exit(0)\<close>,
  or dies in \<^verbatim>\<open>read\<close>, or waits for a key for ever, or runs into an access outside an array
  or a row buffer.
\<close>

datatype outcome =
  Next editorConfig "read_result list" "syscall list"
| Exit int "syscall list"
| ReadDied
| Blocked
| Undefined

text \<open>The outcome of a key that only edits the buffer or moves the cursor.\<close>

definition edited :: "editorConfig option \<Rightarrow> read_result list \<Rightarrow> outcome" where
  "edited r rest = (case r of None \<Rightarrow> Undefined | Some E' \<Rightarrow> Next E' rest [])"

definition editorProcessKeypress ::
  "bool \<Rightarrow> world \<Rightarrow> read_result list \<Rightarrow> editorConfig \<Rightarrow> outcome" where
  "editorProcessKeypress sg fs inp E =
     (case editorReadKey sg inp of
        Waiting \<Rightarrow> Blocked
      | Died \<Rightarrow> ReadDied
      | Return c rest \<Rightarrow>
          if c = 17 then Next E rest []
          else if c = of_char CHR 0x0D then edited (editorInsertNewline E) rest
          else if c = 127 \<or> c = 8 then edited (editorDelChar E) rest
          else if c = 19 then
            (if filename E = [] then
               (case editorPrompt sg (fresh_buffer fs ''Save as: '') ''Save as: '' rest E of
                  Waiting \<Rightarrow> Blocked
                | Died \<Rightarrow> ReadDied
                | Return (None, E1) r1 \<Rightarrow> Next E1 r1 []
                | Return (Some fn, E1) r1 \<Rightarrow>
                    (let E2 = E1\<lparr>filename := take 511 fn\<rparr> in
                     case editorSave (Some (filename E2)) (fs_write fs) E2 of
                       None \<Rightarrow> Undefined
                     | Some (ret, E3, calls) \<Rightarrow> Next E3 r1 calls))
             else
               (case editorSave (Some (filename E)) (fs_write fs) E of
                  None \<Rightarrow> Undefined
                | Some (ret, E3, calls) \<Rightarrow> Next E3 rest calls))
          else if c = 15 then
            (case editorPrompt sg (fresh_buffer fs ''Open file: '') ''Open file: '' rest E of
               Waiting \<Rightarrow> Blocked
             | Died \<Rightarrow> ReadDied
             | Return (None, E1) r1 \<Rightarrow> Next E1 r1 []
             | Return (Some fn, E1) r1 \<Rightarrow>
                 Next ((editorOpen fn (fs_read fs fn) E1)\<lparr>cy := 0, cx := 0\<rparr>) r1 [Fopen fn])
          else if c = 24 then
            (if dirty E \<noteq> 0 then
               (case editorPrompt sg (fresh_buffer fs ''Save changes before exit? (y/N): '')
                       ''Save changes before exit? (y/N): '' rest E of
                  Waiting \<Rightarrow> Blocked
                | Died \<Rightarrow> ReadDied
                | Return (ans, E1) r1 \<Rightarrow>
                    if (case ans of None \<Rightarrow> False
                        | Some a \<Rightarrow> take 1 a = ''y'' \<or> take 1 a = ''Y'') then
                      (if filename E1 = [] then
                         (case editorPrompt sg (fresh_buffer fs ''Save as: '') ''Save as: '' r1 E1 of
                            Waiting \<Rightarrow> Blocked
                          | Died \<Rightarrow> ReadDied
                          | Return (None, E2) r2 \<Rightarrow> Next E2 r2 []
                          | Return (Some fn, E2) r2 \<Rightarrow>
                              (let E3 = E2\<lparr>filename := take 511 fn\<rparr> in
                               case editorSave (Some (filename E3)) (fs_write fs) E3 of
                                 None \<Rightarrow> Undefined
                               | Some (ret, E4, calls) \<Rightarrow> Exit 0 calls))
                       else
                         (case editorSave (Some (filename E1)) (fs_write fs) E1 of
                            None \<Rightarrow> Undefined
                          | Some (ret, E4, calls) \<Rightarrow> Exit 0 calls))
                    else Exit 0 [])
             else Exit 0 [])
          else if c = ARROW_UP \<or> c = ARROW_DOWN \<or> c = ARROW_RIGHT \<or> c = ARROW_LEFT then
            edited (editorMoveCursor c E) rest
          else if \<not> iscntrl c \<and> c < 128 then edited (editorInsertChar c E) rest
          else Next E rest [])"

section \<open>Notions used in the statements\<close>

text \<open>
  A line as a file stores it: its bytes, none of them a newline and the last one not a
  carriage return, and its terminator, LF or CR LF.
\<close>

definition stored_line :: "char list \<times> char list \<Rightarrow> bool" where
  "stored_line lt =
     (case lt of (l, t) \<Rightarrow>
        CHR 0x0A \<notin> set l \<and> (l = [] \<or> last l \<noteq> CHR 0x0D) \<and>
        (t = [CHR 0x0A] \<or> t = [CHR 0x0D, CHR 0x0A]))"

text \<open>Predicates on input bytes and read outcomes used to state the decoder's behaviour.\<close>

definition isdigit :: "char \<Rightarrow> bool" where
  "isdigit c = ((48::nat) \<le> of_char c \<and> (of_char c :: nat) \<le> 57)"

definition no_byte :: "read_result \<Rightarrow> bool" where
  "no_byte r = (case r of Got b \<Rightarrow> False | Timeout \<Rightarrow> True | Failed e \<Rightarrow> True)"

definition printable :: "char \<Rightarrow> bool" where
  "printable c = ((32::nat) \<le> of_char c \<and> (of_char c :: nat) < 127)"

text \<open>
  A world in which no path can be opened for reading, every save succeeds and a fresh
  buffer holds the two bytes \<open>#!\<close>.
\<close>

definition test_world :: world where
  "test_world = \<lparr>fs_read = (\<lambda>p. Inl ''No such file or directory''), fs_write = (\<lambda>p. WriteOk),
                  fresh_buffer = (\<lambda>p. ''#!'')\<rparr>"

text \<open>A buffer holding the given lines, with the cursor at row \<open>y\<close>, column \<open>x\<close>.\<close>

definition buffer_of :: "string list \<Rightarrow> int \<Rightarrow> int \<Rightarrow> editorConfig" where
  "buffer_of ls y x = (initEditor 24 80)\<lparr>rows := map mk_row ls, cy := y, cx := x\<rparr>"

section \<open>The row-shifting loops\<close>

lemma length_shift_rows_up [simp]: "length (shift_rows_up i n rs) = length rs"
  by (induction i n rs rule: shift_rows_up.induct) (subst shift_rows_up.simps, simp)

lemma length_shift_rows_down [simp]: "length (shift_rows_down i lo rs) = length rs"
  by (induction i lo rs rule: shift_rows_down.induct) (subst shift_rows_down.simps, simp)

lemma nth_shift_rows_up:
  "n < length rs \<Longrightarrow> j < length rs \<Longrightarrow>
   shift_rows_up i n rs ! j = (if i \<le> j \<and> j < n then rs ! Suc j else rs ! j)"
proof (induction i n rs rule: shift_rows_up.induct)
  case (1 i n rs)
  show ?case
  proof (cases "i < n")
    case True
    with 1 show ?thesis
      by (subst shift_rows_up.simps) (auto simp: nth_list_update)
  next
    case False
    then show ?thesis by (subst shift_rows_up.simps) auto
  qed
qed

lemma nth_shift_rows_down:
  "i < length rs \<Longrightarrow> j < length rs \<Longrightarrow>
   shift_rows_down i lo rs ! j = (if lo < j \<and> j \<le> i then rs ! (j - 1) else rs ! j)"
proof (induction i lo rs rule: shift_rows_down.induct)
  case (1 i lo rs)
  show ?case
  proof (cases "lo < i")
    case True
    with 1 show ?thesis
      by (subst shift_rows_down.simps) (auto simp: nth_list_update)
  next
    case False
    then show ?thesis by (subst shift_rows_down.simps) auto
  qed
qed

lemma join_rows:
  assumes "0 < k" "k < length rs"
  shows "take (length rs - Suc 0) (shift_rows_up k (length rs - Suc 0) (rs[k - Suc 0 := x])) =
         take (k - Suc 0) rs @ [x] @ drop (Suc k) rs"
proof (rule nth_equalityI)
  show "length (take (length rs - Suc 0) (shift_rows_up k (length rs - Suc 0) (rs[k - Suc 0 := x]))) =
        length (take (k - Suc 0) rs @ [x] @ drop (Suc k) rs)"
    using assms by simp
next
  fix j
  assume "j < length (take (length rs - Suc 0) (shift_rows_up k (length rs - Suc 0) (rs[k - Suc 0 := x])))"
  then have j: "j < length rs - Suc 0" by simp
  with assms show "take (length rs - Suc 0) (shift_rows_up k (length rs - Suc 0) (rs[k - Suc 0 := x])) ! j =
        (take (k - Suc 0) rs @ [x] @ drop (Suc k) rs) ! j"
    by (auto simp: nth_shift_rows_up nth_append nth_list_update nth_Cons' intro!: arg_cong[where f="(!) rs"])
qed

lemma split_rows:
  assumes "k < length rs"
  shows "(shift_rows_down (length rs) (Suc k) (rs @ [y]))[Suc k := x] =
         take (Suc k) rs @ [x] @ drop (Suc k) rs"
proof (rule nth_equalityI)
  show "length ((shift_rows_down (length rs) (Suc k) (rs @ [y]))[Suc k := x]) =
        length (take (Suc k) rs @ [x] @ drop (Suc k) rs)"
    using assms by simp
next
  fix j
  assume "j < length ((shift_rows_down (length rs) (Suc k) (rs @ [y]))[Suc k := x])"
  then have j: "j < Suc (length rs)" by simp
  with assms show "(shift_rows_down (length rs) (Suc k) (rs @ [y]))[Suc k := x] ! j =
        (take (Suc k) rs @ [x] @ drop (Suc k) rs) ! j"
    by (auto simp: nth_shift_rows_down nth_append nth_list_update nth_Cons' intro!: arg_cong[where f="(!) rs"])
qed

lemma rows_ok_nth: "rows_ok E \<Longrightarrow> i < length (rows E) \<Longrightarrow> size_row (rows E ! i) = int (length (chars (rows E ! i)))"
  by (simp add: rows_ok_def list_all_length)

section \<open>Cursor movement and the cursor invariant\<close>

text \<open>Up, Left, Right and every other key keep a valid state valid.\<close>

lemma valid_row_size:
  assumes "valid E" and "0 \<le> i" and "i < numrows E"
  shows "0 \<le> size_row (rows E ! nat i)"
proof -
  have "nat i < length (rows E)" using assms by (simp add: numrows_def)
  with assms(1) have "size_row (rows E ! nat i) = int (length (chars (rows E ! nat i)))"
    by (simp add: valid_def rows_ok_def list_all_length)
  then show ?thesis by simp
qed

lemma clamp_cx_valid:
  assumes "rows_ok E" and "0 \<le> cy E" and "cy E \<le> numrows E" and "0 \<le> cx E"
    and "cy E = numrows E \<longrightarrow> cx E = 0"
    and "cy E < numrows E \<longrightarrow> 0 \<le> size_row (rows E ! nat (cy E))"
  shows "\<exists>E'. clamp_cx E = Some E' \<and> valid E'"
  using assms
  by (simp add: clamp_cx_def valid_def rows_ok_def cursor_ok_def row_length_def numrows_def)

lemma editorMoveCursor_keeps_valid:
  assumes v: "valid E" and nd: "key \<noteq> ARROW_DOWN"
  shows "\<exists>E'. editorMoveCursor key E = Some E' \<and> valid E'"
proof -
  have ok: "rows_ok E" and cur: "cursor_ok E" using v by (simp_all add: valid_def)
  have c: "0 \<le> cy E" "cy E \<le> numrows E" "0 \<le> cx E" "cx E \<le> row_length E (cy E)"
    using cur by (simp_all add: cursor_ok_def)
  consider (up) "key = ARROW_UP" | (right) "key \<noteq> ARROW_UP" "key = ARROW_RIGHT"
    | (left) "key \<noteq> ARROW_UP" "key \<noteq> ARROW_RIGHT" "key = ARROW_LEFT"
    | (other) "key \<noteq> ARROW_UP" "key \<noteq> ARROW_RIGHT" "key \<noteq> ARROW_LEFT"
    by blast
  then show ?thesis
  proof cases
    case up
    show ?thesis
    proof (cases "cy E > 0")
      case True
      have sz: "0 \<le> size_row (rows E ! nat (cy E - 1))"
        using valid_row_size [OF v, of "cy E - 1"] True c by simp
      have "\<exists>E'. clamp_cx (E\<lparr>cy := cy E - 1\<rparr>) = Some E' \<and> valid E'"
        using ok c True sz
        by (intro clamp_cx_valid) (simp_all add: rows_ok_def numrows_def)
      with up True show ?thesis by (simp add: editorMoveCursor_def)
    next
      case False
      with c have z: "cy E = 0" by simp
      have "\<exists>E'. clamp_cx E = Some E' \<and> valid E'"
        using v c by (auto simp: clamp_cx_def row_length_def)
      with up False show ?thesis by (simp add: editorMoveCursor_def)
    qed
  next
    case right
    show ?thesis
    proof (cases "cy E < numrows E")
      case True
      have sz: "0 \<le> size_row (rows E ! nat (cy E))"
        using valid_row_size [OF v, of "cy E"] True c by simp
      have nx: "cy E + 1 < numrows E \<Longrightarrow> 0 \<le> size_row (rows E ! nat (cy E + 1))"
        using valid_row_size [OF v, of "cy E + 1"] c by simp
      from right nd True c ok sz nx show ?thesis
        by (auto simp: editorMoveCursor_def valid_def rows_ok_def cursor_ok_def row_length_def numrows_def)
    next
      case False
      with right nd v show ?thesis by (simp add: editorMoveCursor_def)
    qed
  next
    case left
    show ?thesis
    proof (cases "cx E > 0")
      case True
      with left nd c ok show ?thesis
        by (auto simp: editorMoveCursor_def valid_def rows_ok_def cursor_ok_def row_length_def numrows_def)
    next
      case cx0: False
      show ?thesis
      proof (cases "cy E > 0")
        case True
        have sz: "0 \<le> size_row (rows E ! nat (cy E - 1))"
          using valid_row_size [OF v, of "cy E - 1"] True c by simp
        from left nd cx0 True c ok sz show ?thesis
          by (auto simp: editorMoveCursor_def valid_def rows_ok_def cursor_ok_def row_length_def numrows_def)
      next
        case False
        with left nd cx0 v show ?thesis by (simp add: editorMoveCursor_def)
      qed
    qed
  next
    case other
    with nd v show ?thesis by (simp add: editorMoveCursor_def)
  qed
qed

text \<open>
  Claim C2. Every sequence of cursor moves from a valid state should end in a valid state,
  a Down move setting \<open>cy = min (cy + 1) numrows\<close> and then clamping \<open>cx\<close> to the length of
  the new row, the virtual row \<open>numrows\<close> having length 0. The source clamps \<open>cx\<close> only
  under the guard \<^verbatim>\<open>E.cy < E.numrows\<close>: with the single row \<open>abc\<close> and the cursor at its
  end, Down moves to the virtual row and keeps \<open>cx = 3\<close>. The state reached is not valid,
  and typing a character there runs \<^verbatim>\<open>memmove\<close> with a negative length.
\<close>

theorem editorMoveCursor_down_keeps_cx_on_virtual_row:
  "valid (buffer_of [''abc''] 0 3) \<and>
   editorMoveCursor ARROW_DOWN (buffer_of [''abc''] 0 3) = Some (buffer_of [''abc''] 1 3) \<and>
   numrows (buffer_of [''abc''] 1 3) = 1 \<and>
   row_length (buffer_of [''abc''] 1 3) 1 = 0 \<and>
   \<not> valid (buffer_of [''abc''] 1 3) \<and>
   editorInsertChar (of_char CHR ''x'') (buffer_of [''abc''] 1 3) = None"
  by (simp add: buffer_of_def initEditor_def mk_row_def valid_def rows_ok_def cursor_ok_def
      row_length_def numrows_def editorMoveCursor_def ARROW_DOWN_def ARROW_UP_def clamp_cx_def
      editorInsertChar_def editorAppendRow_def)

section \<open>Joining rows with Backspace\<close>

text \<open>
  Claim C4. With the cursor at column 0 of a row \<open>cy\<close> that is neither the first row nor the
  virtual row, \<open>editorDelChar\<close> appends row \<open>cy\<close> to row \<open>cy - 1\<close>, removes row \<open>cy\<close> (the row
  count drops by one) and leaves the cursor at row \<open>cy - 1\<close>, in the column that was the
  length of row \<open>cy - 1\<close>.
\<close>

theorem editorDelChar_joins_rows:
  assumes "valid E" and "cx E = 0" and "0 < cy E" and "cy E < numrows E"
  shows "editorDelChar E =
           Some (E\<lparr>rows := take (nat (cy E) - 1) (rows E) @
                           [mk_row (chars (rows E ! (nat (cy E) - 1)) @ chars (rows E ! nat (cy E)))] @
                           drop (Suc (nat (cy E))) (rows E),
                   cy := cy E - 1,
                   cx := size_row (rows E ! (nat (cy E) - 1)),
                   dirty := 1\<rparr>) \<and>
         map_option numrows (editorDelChar E) = Some (numrows E - 1)"
proof -
  define k where "k = nat (cy E)"
  have k: "0 < k" "k < length (rows E)" "cy E = int k"
    using assms by (simp_all add: k_def numrows_def)
  have ok: "rows_ok E" using assms(1) by (simp add: valid_def)
  have s1: "size_row (rows E ! (k - Suc 0)) = int (length (chars (rows E ! (k - Suc 0))))"
    using k by (intro rows_ok_nth[OF ok]) simp
  have s2: "size_row (rows E ! k) = int (length (chars (rows E ! k)))"
    using k by (intro rows_ok_nth[OF ok]) simp
  have n1: "nat (int k - 1) = k - 1" using k by simp
  have n2: "nat (int (length (rows E)) - 1) = length (rows E) - 1" by simp
  have eq: "editorDelChar E =
           Some (E\<lparr>rows := take (k - 1) (rows E) @
                           [mk_row (chars (rows E ! (k - 1)) @ chars (rows E ! k))] @
                           drop (Suc k) (rows E),
                   cy := cy E - 1,
                   cx := size_row (rows E ! (k - 1)),
                   dirty := 1\<rparr>)"
    using k assms(2) unfolding editorDelChar_def Let_def numrows_def
    by (simp add: n1 n2 s1 s2 join_rows mk_row_def)
  show ?thesis
    unfolding eq using k by (simp add: numrows_def k_def [symmetric])
qed

text \<open>The scenario of the specification: rows \<open>foo\<close> and \<open>bar\<close>, cursor at (1, 0).\<close>

theorem editorDelChar_joins_rows_witness:
  "valid (buffer_of [''foo'', ''bar''] 1 0) \<and>
   editorDelChar (buffer_of [''foo'', ''bar''] 1 0) =
     Some ((buffer_of [''foobar''] 0 3)\<lparr>dirty := 1\<rparr>)"
proof -
  have v: "valid (buffer_of [''foo'', ''bar''] 1 0)"
    by (simp add: buffer_of_def initEditor_def mk_row_def valid_def rows_ok_def cursor_ok_def
        row_length_def numrows_def)
  have h: "cx (buffer_of [''foo'', ''bar''] 1 0) = 0" "0 < cy (buffer_of [''foo'', ''bar''] 1 0)"
    "cy (buffer_of [''foo'', ''bar''] 1 0) < numrows (buffer_of [''foo'', ''bar''] 1 0)"
    by (simp_all add: buffer_of_def numrows_def)
  from editorDelChar_joins_rows [OF v h] v show ?thesis
    by (simp add: buffer_of_def initEditor_def mk_row_def)
qed

section \<open>Inserting and then deleting a byte\<close>

text \<open>
  The state after inserting a byte and deleting at the new cursor position: on a row of
  the buffer it is the state before with the dirty flag set; on the virtual row the empty
  row that \<open>editorInsertChar\<close> appended stays as well.
\<close>

lemma insert_then_delete_state:
  assumes "valid E"
  shows "Option.bind (editorInsertChar c E) editorDelChar =
           Some (if cy E < numrows E then E\<lparr>dirty := 1\<rparr>
                 else E\<lparr>rows := rows E @ [mk_row []], dirty := 1\<rparr>)"
proof (cases "cy E < numrows E")
  case True
  define k where "k = nat (cy E)"
  have ok: "rows_ok E" and cur: "cursor_ok E" using assms by (simp_all add: valid_def)
  have k: "k < length (rows E)" "cy E = int k"
    using True cur by (auto simp: k_def numrows_def cursor_ok_def)
  have sz: "size_row (rows E ! k) = int (length (chars (rows E ! k)))"
    using k by (intro rows_ok_nth[OF ok]) simp
  have cxr: "0 \<le> cx E" "cx E \<le> int (length (chars (rows E ! k)))"
    using cur k sz by (simp_all add: cursor_ok_def row_length_def numrows_def)
  define n where "n = nat (cx E)"
  have n: "cx E = int n" "n \<le> length (chars (rows E ! k))"
    using cxr by (simp_all add: n_def)
  define s where "s = chars (rows E ! k)"
  define r1 where "r1 = \<lparr>size_row = int (length s) + 1, chars = take n s @ char_of c # drop n s\<rparr>"
  have r2: "\<lparr>size_row = int (length s), chars = s\<rparr> = rows E ! k"
    using sz by (simp add: s_def)
  have ins: "editorInsertChar c E = Some (E\<lparr>rows := (rows E)[k := r1], cx := int n + 1, dirty := 1\<rparr>)"
    using True k n sz by (simp add: editorInsertChar_def Let_def numrows_def r1_def s_def)
  have bytes: "take n (chars r1) @ drop (Suc n) (take (Suc (length s)) (chars r1)) = s"
    using n by (simp add: r1_def s_def)
  have del: "editorDelChar (E\<lparr>rows := (rows E)[k := r1], cx := int n + 1, dirty := 1\<rparr>) =
             Some (E\<lparr>rows := (rows E)[k := \<lparr>size_row = int (length s), chars = s\<rparr>],
                     cx := int n, dirty := 1\<rparr>)"
  proof -
    have "size_row r1 = int (Suc (length s))" "length (chars r1) = Suc (length s)"
      using n by (simp_all add: r1_def s_def)
    then show ?thesis
      using k n bytes
      by (simp add: editorDelChar_def Let_def numrows_def nat_add_distrib s_def [symmetric])
  qed
  have "E\<lparr>rows := (rows E)[k := rows E ! k], cx := int n, dirty := 1\<rparr> = E\<lparr>dirty := 1\<rparr>"
    using n by simp
  then show ?thesis
    using True by (simp add: ins del r2)
next
  case False
  have ok: "rows_ok E" and cur: "cursor_ok E" using assms by (simp_all add: valid_def)
  have c: "cy E = int (length (rows E))" "cx E = 0"
    using False cur by (simp_all add: numrows_def cursor_ok_def row_length_def)
  show ?thesis
    using False c
    by (simp add: editorInsertChar_def editorDelChar_def Let_def numrows_def
        editorAppendRow_def mk_row_def nth_append)
qed

lemma row_content_virtual_row:
  assumes "cy E = numrows E"
  shows "row_content (E\<lparr>rows := rows E @ [mk_row []], dirty := 1\<rparr>) i = row_content E i"
    and "row_length (E\<lparr>rows := rows E @ [mk_row []], dirty := 1\<rparr>) i = row_length E i"
  by (auto simp: row_content_def row_length_def numrows_def mk_row_def nth_append)

text \<open>
  Claim C5. For every valid cursor, the virtual row included, inserting a byte at the
  cursor and then deleting at the resulting cursor position restores the cursor position
  and the content and length of the row at every index, the virtual row having the empty
  content. The state reached is the one of \<open>insert_then_delete_state\<close>.
\<close>

theorem editorInsertChar_then_editorDelChar:
  assumes "valid E"
  shows "\<exists>E'. Option.bind (editorInsertChar c E) editorDelChar = Some E' \<and>
           cx E' = cx E \<and> cy E' = cy E \<and>
           (\<forall>i. row_content E' i = row_content E i) \<and>
           (\<forall>i. row_length E' i = row_length E i) \<and>
           E' = (if cy E < numrows E then E\<lparr>dirty := 1\<rparr>
                 else E\<lparr>rows := rows E @ [mk_row []], dirty := 1\<rparr>)"
proof (cases "cy E < numrows E")
  case True
  with insert_then_delete_state [OF assms, of c] show ?thesis
    by (simp add: row_content_def row_length_def numrows_def)
next
  case False
  with assms have "cy E = numrows E" by (simp add: valid_def cursor_ok_def)
  with insert_then_delete_state [OF assms, of c] False show ?thesis
    by (simp add: row_content_virtual_row)
qed

text \<open>On one row \<open>abc\<close> with the cursor at (0, 1), and on the virtual row of the empty buffer.\<close>

theorem editorInsertChar_then_editorDelChar_witness:
  "valid (buffer_of [''abc''] 0 1) \<and>
   Option.bind (editorInsertChar (of_char CHR ''x'') (buffer_of [''abc''] 0 1)) editorDelChar =
     Some ((buffer_of [''abc''] 0 1)\<lparr>dirty := 1\<rparr>) \<and>
   valid (buffer_of [] 0 0) \<and>
   Option.bind (editorInsertChar (of_char CHR ''x'') (buffer_of [] 0 0)) editorDelChar =
     Some ((buffer_of [[]] 0 0)\<lparr>dirty := 1\<rparr>) \<and>
   row_content ((buffer_of [[]] 0 0)\<lparr>dirty := 1\<rparr>) 0 = row_content (buffer_of [] 0 0) 0"
proof -
  have v: "valid (buffer_of [''abc''] 0 1)" "valid (buffer_of [] 0 0)"
    by (simp_all add: buffer_of_def initEditor_def mk_row_def valid_def rows_ok_def cursor_ok_def
        row_length_def numrows_def)
  from editorInsertChar_then_editorDelChar [OF v(1), of "of_char CHR ''x''"]
  obtain E1 where
    "Option.bind (editorInsertChar (of_char CHR ''x'') (buffer_of [''abc''] 0 1)) editorDelChar = Some E1"
    and "E1 = (if cy (buffer_of [''abc''] 0 1) < numrows (buffer_of [''abc''] 0 1)
               then (buffer_of [''abc''] 0 1)\<lparr>dirty := 1\<rparr>
               else (buffer_of [''abc''] 0 1)\<lparr>rows := rows (buffer_of [''abc''] 0 1) @ [mk_row []],
                                              dirty := 1\<rparr>)"
    by blast
  then have a: "Option.bind (editorInsertChar (of_char CHR ''x'') (buffer_of [''abc''] 0 1))
                  editorDelChar = Some ((buffer_of [''abc''] 0 1)\<lparr>dirty := 1\<rparr>)"
    by (simp add: buffer_of_def initEditor_def numrows_def)
  from editorInsertChar_then_editorDelChar [OF v(2), of "of_char CHR ''x''"]
  obtain E2 where
    "Option.bind (editorInsertChar (of_char CHR ''x'') (buffer_of [] 0 0)) editorDelChar = Some E2"
    and "E2 = (if cy (buffer_of [] 0 0) < numrows (buffer_of [] 0 0)
               then (buffer_of [] 0 0)\<lparr>dirty := 1\<rparr>
               else (buffer_of [] 0 0)\<lparr>rows := rows (buffer_of [] 0 0) @ [mk_row []], dirty := 1\<rparr>)"
    and "row_content E2 0 = row_content (buffer_of [] 0 0) 0"
    by blast
  then have b: "Option.bind (editorInsertChar (of_char CHR ''x'') (buffer_of [] 0 0)) editorDelChar =
                  Some ((buffer_of [[]] 0 0)\<lparr>dirty := 1\<rparr>)"
    and c: "row_content ((buffer_of [[]] 0 0)\<lparr>dirty := 1\<rparr>) 0 = row_content (buffer_of [] 0 0) 0"
    by (simp_all add: buffer_of_def initEditor_def numrows_def)
  from v a b c show ?thesis by blast
qed

section \<open>Splitting a row with Enter\<close>

lemma shift_rows_down_open_slot:
  assumes "k < length rs"
  shows "(shift_rows_down (length rs) k (rs @ [y]))[Suc k := a, k := b] =
         take k rs @ [b, a] @ drop (Suc k) rs"
proof (rule nth_equalityI)
  show "length ((shift_rows_down (length rs) k (rs @ [y]))[Suc k := a, k := b]) =
        length (take k rs @ [b, a] @ drop (Suc k) rs)"
    using assms by simp
next
  fix j
  assume "j < length ((shift_rows_down (length rs) k (rs @ [y]))[Suc k := a, k := b])"
  then have j: "j < Suc (length rs)" by simp
  with assms show "(shift_rows_down (length rs) k (rs @ [y]))[Suc k := a, k := b] ! j =
        (take k rs @ [b, a] @ drop (Suc k) rs) ! j"
    by (auto simp: nth_shift_rows_down nth_append nth_list_update nth_Cons' intro!: arg_cong[where f="(!) rs"])
qed

lemma shift_rows_down_keeps_low:
  "k < length rs \<Longrightarrow> shift_rows_down (length rs) k (rs @ [y]) ! k = rs ! k"
  by (simp add: nth_shift_rows_down nth_append)

lemma shift_rows_down_copies_next:
  "k < length rs \<Longrightarrow> shift_rows_down (length rs) k (rs @ [y]) ! Suc k = rs ! k"
  by (simp add: nth_shift_rows_down nth_append)

lemma strdup_no_NUL: "CHR 0x00 \<notin> set s \<Longrightarrow> strdup s = s"
  by (auto simp: strdup_def)

lemma editorInsertNewline_at_column_0:
  assumes "valid E" and "cx E = 0" and "cy E < numrows E"
  shows "editorInsertNewline E =
           Some (E\<lparr>rows := take (nat (cy E)) (rows E) @
                           [mk_row [], (rows E ! nat (cy E))\<lparr>chars := strdup (chars (rows E ! nat (cy E)))\<rparr>] @
                           drop (Suc (nat (cy E))) (rows E),
                   cy := cy E + 1, cx := 0, dirty := 1\<rparr>)"
proof -
  define k where "k = nat (cy E)"
  have cur: "cursor_ok E" using assms by (simp add: valid_def)
  have k: "k < length (rows E)" "cy E = int k"
    using assms(3) cur by (auto simp: k_def numrows_def cursor_ok_def)
  show ?thesis
    using k assms(2)
    by (simp add: editorInsertNewline_def editorAppendRow_def Let_def numrows_def
        shift_rows_down_keeps_low shift_rows_down_copies_next shift_rows_down_open_slot
        mk_row_def strdup_def nth_append k_def [symmetric])
qed

lemma editorInsertNewline_splits_row:
  assumes "valid E" and "0 < cx E" and "cy E < numrows E"
  shows "editorInsertNewline E =
           Some (E\<lparr>rows := take (nat (cy E)) (rows E) @
                           [mk_row (take (nat (cx E)) (chars (rows E ! nat (cy E)))),
                            mk_row (drop (nat (cx E)) (chars (rows E ! nat (cy E))))] @
                           drop (Suc (nat (cy E))) (rows E),
                   cy := cy E + 1, cx := 0, dirty := 1\<rparr>)"
proof -
  define k where "k = nat (cy E)"
  have ok: "rows_ok E" and cur: "cursor_ok E" using assms by (simp_all add: valid_def)
  have k: "k < length (rows E)" "cy E = int k"
    using assms(3) cur by (auto simp: k_def numrows_def cursor_ok_def)
  have sz: "size_row (rows E ! k) = int (length (chars (rows E ! k)))"
    using k by (intro rows_ok_nth[OF ok]) simp
  define n where "n = nat (cx E)"
  have n: "cx E = int n" "n \<le> length (chars (rows E ! k))" "0 < n"
    using cur k sz assms(2) by (simp_all add: n_def cursor_ok_def row_length_def numrows_def)
  have sp: "(shift_rows_down (length (rows E)) (Suc k) ((rows E)[k := a] @ [y]))[Suc k := x] =
            take k (rows E) @ [a, x] @ drop (Suc k) (rows E)" for a x y
    using split_rows [of k "(rows E)[k := a]" y x] k
    by (simp add: take_Suc_conv_app_nth)
  show ?thesis
    using k n sz
    by (simp add: editorInsertNewline_def editorAppendRow_def Let_def numrows_def
        nat_add_distrib sp mk_row_def k_def [symmetric] n_def [symmetric] min_def)
qed

text \<open>
  The scenario of the specification: in the empty buffer, typing \<open>hi\<close>, Enter and \<open>x\<close>
  gives the rows \<open>hi\<close> and \<open>x\<close> with the cursor at (1, 1).
\<close>

lemma typing_hi_Enter_x:
  "Option.bind (Option.bind (Option.bind
     (editorInsertChar (of_char CHR ''h'') (initEditor 24 80))
     (editorInsertChar (of_char CHR ''i''))) editorInsertNewline)
     (editorInsertChar (of_char CHR ''x'')) =
   Some ((buffer_of [''hi'', ''x''] 1 1)\<lparr>dirty := 1\<rparr>)"
  by (simp add: editorInsertChar_def editorInsertNewline_def editorAppendRow_def numrows_def
      initEditor_def buffer_of_def mk_row_def shift_rows_down.simps char_of_eq_iff)

text \<open>
  Claim C6. For every valid cursor on a row of the buffer, Enter should cut row \<open>cy\<close> at
  \<open>cx\<close> and put the rest into a new row below; at \<open>cx = 0\<close> the whole content of the row
  moves down. Away from column 0 the source copies with \<^verbatim>\<open>memcpy\<close> and the row's size, but
  at column 0 it copies the row with \<^verbatim>\<open>strdup\<close> and keeps the size: a row read from a file
  with a NUL byte in it loses what follows the NUL. After loading the line \<open>a NUL b\<close>,
  Enter at (0, 0) leaves a second row of size 3 whose buffer holds only \<open>a\<close>.
\<close>

theorem editorInsertNewline_cuts_row_at_NUL:
  "editorOpen ''f'' (Inr [CHR ''a'', CHR 0x00, CHR ''b'', CHR 0x0A]) (initEditor 24 80) =
     (buffer_of [[CHR ''a'', CHR 0x00, CHR ''b'']] 0 0)\<lparr>filename := ''f'', statusmsg := ''Opened f''\<rparr> \<and>
   valid ((buffer_of [[CHR ''a'', CHR 0x00, CHR ''b'']] 0 0)\<lparr>filename := ''f'', statusmsg := ''Opened f''\<rparr>) \<and>
   map_option rows (editorInsertNewline
     ((buffer_of [[CHR ''a'', CHR 0x00, CHR ''b'']] 0 0)\<lparr>filename := ''f'', statusmsg := ''Opened f''\<rparr>)) =
     Some [mk_row [], \<lparr>size_row = 3, chars = ''a''\<rparr>] \<and>
   map_option (\<lambda>E'. row_content E' 1) (editorInsertNewline
     ((buffer_of [[CHR ''a'', CHR 0x00, CHR ''b'']] 0 0)\<lparr>filename := ''f'', statusmsg := ''Opened f''\<rparr>)) =
     Some ''a''"
  by (simp add: editorOpen_def editorFreeRows_def read_rows.simps getline_def editorAppendRow_def
      initEditor_def buffer_of_def mk_row_def valid_def rows_ok_def cursor_ok_def row_length_def
      row_content_def numrows_def editorInsertNewline_def shift_rows_down.simps strdup_def)

section \<open>Loading and saving\<close>

lemma strip_len_stop:
  "x \<noteq> CHR 0x0A \<Longrightarrow> x \<noteq> CHR 0x0D \<Longrightarrow> strip_len (l @ x # t) (Suc (length l)) = Suc (length l)"
  by simp

lemma strip_len_line:
  assumes "stored_line (l, t)"
  shows "strip_len (l @ t) (length (l @ t)) = length l"
proof (cases l rule: rev_cases)
  case Nil
  with assms show ?thesis by (auto simp: stored_line_def)
next
  case (snoc l' x)
  with assms have x: "x \<noteq> CHR 0x0A" "x \<noteq> CHR 0x0D" by (auto simp: stored_line_def)
  have "strip_len (l' @ x # t) (Suc (length l')) = Suc (length l')"
    using x by (rule strip_len_stop)
  moreover have "t = [CHR 0x0A] \<or> t = [CHR 0x0D, CHR 0x0A]"
    using assms by (simp add: stored_line_def)
  ultimately show ?thesis
    using snoc by (auto simp: nth_append)
qed

lemma getline_line:
  assumes "stored_line (l, t)"
  shows "getline (l @ t @ rest) = Some (l @ t, rest)"
proof -
  have l: "\<And>x. x \<in> set l \<Longrightarrow> x \<noteq> CHR 0x0A" using assms by (auto simp: stored_line_def)
  have t: "t = [CHR 0x0A] \<or> t = [CHR 0x0D, CHR 0x0A]"
    using assms by (simp add: stored_line_def)
  then show ?thesis
  proof
    assume "t = [CHR 0x0A]"
    then show ?thesis using l
      by (simp add: getline_def dropWhile_append2 takeWhile_append2 dropWhile_append3 takeWhile_tail)
  next
    assume "t = [CHR 0x0D, CHR 0x0A]"
    then show ?thesis using l
      by (simp add: getline_def dropWhile_append2 takeWhile_append2)
  qed
qed

lemma read_rows_lines:
  assumes "list_all stored_line lts"
  shows "read_rows (concat (map (\<lambda>(l, t). l @ t) lts)) E =
         (if lts = [] then E
          else E\<lparr>rows := rows E @ map mk_row (map fst lts), dirty := 1\<rparr>)"
  using assms
proof (induction lts arbitrary: E)
  case Nil
  show ?case by (simp add: read_rows.simps getline_def)
next
  case (Cons lt lts)
  obtain l t where lt: "lt = (l, t)" by (cases lt)
  have sl: "stored_line (l, t)" and rest: "list_all stored_line lts"
    using Cons.prems lt by simp_all
  have step: "read_rows (concat (map (\<lambda>(l, t). l @ t) (lt # lts))) E =
        read_rows (concat (map (\<lambda>(l, t). l @ t) lts)) (editorAppendRow (l @ t) (length l) E)"
    using getline_line [OF sl] strip_len_line [OF sl]
    by (subst read_rows.simps) (simp add: lt)
  show ?case
    unfolding step Cons.IH [OF rest]
    by (simp add: editorAppendRow_def mk_row_def lt)
qed

text \<open>
  Claim C3. Loading a file made of stored lines and saving at once writes the same lines,
  each followed by one LF: the bytes of every line are kept, CR LF and LF both become LF.
  Whatever the buffer held before is replaced.
\<close>

theorem load_then_serialize:
  assumes "list_all stored_line lts" and "fname \<noteq> []"
  shows "rows (editorOpen fname (Inr (concat (map (\<lambda>(l, t). l @ t) lts))) E) =
           map mk_row (map fst lts) \<and>
         map_option (\<lambda>r. snd (snd r))
           (editorSave None (\<lambda>p. WriteOk)
              (editorOpen fname (Inr (concat (map (\<lambda>(l, t). l @ t) lts))) E)) =
           Some [Open (take 511 fname), Ftruncate (take 511 fname),
                 Write (take 511 fname) (concat (map (\<lambda>(l, t). l @ [CHR 0x0A]) lts))] \<and>
         map_option fst
           (editorSave None (\<lambda>p. WriteOk)
              (editorOpen fname (Inr (concat (map (\<lambda>(l, t). l @ t) lts))) E)) = Some 1"
proof -
  have r: "rows (editorOpen fname (Inr (concat (map (\<lambda>(l, t). l @ t) lts))) E) =
           map mk_row (map fst lts)"
    by (simp add: editorOpen_def Let_def editorFreeRows_def read_rows_lines [OF assms(1)])
  have f: "filename (editorOpen fname (Inr (concat (map (\<lambda>(l, t). l @ t) lts))) E) = take 511 fname"
    by (simp add: editorOpen_def Let_def editorFreeRows_def read_rows_lines [OF assms(1)])
  have c: "build_buffer (map (mk_row \<circ> fst) ls) =
           Some (concat (map (\<lambda>(l, t). l @ [CHR 0x0A]) ls))"
    for ls :: "(char list \<times> char list) list"
    by (induction ls) (auto simp: mk_row_def)
  show ?thesis
    using assms(2) by (simp add: r f editorSave_def c)
qed

text \<open>A file with a CR LF line, an empty line and an LF line, loaded over the row \<open>old\<close>.\<close>

theorem load_then_serialize_witness:
  "list_all stored_line [(''ab'', [CHR 0x0D, CHR 0x0A]), ([], [CHR 0x0A]), (''c'', [CHR 0x0A])] \<and>
   rows (editorOpen ''f'' (Inr [CHR ''a'', CHR ''b'', CHR 0x0D, CHR 0x0A, CHR 0x0A, CHR ''c'', CHR 0x0A]) (buffer_of [''old''] 0 0)) =
     [mk_row ''ab'', mk_row [], mk_row ''c''] \<and>
   map_option (\<lambda>r. snd (snd r)) (editorSave None (\<lambda>p. WriteOk)
     (editorOpen ''f'' (Inr [CHR ''a'', CHR ''b'', CHR 0x0D, CHR 0x0A, CHR 0x0A, CHR ''c'', CHR 0x0A]) (buffer_of [''old''] 0 0))) =
     Some [Open ''f'', Ftruncate ''f'',
           Write ''f'' [CHR ''a'', CHR ''b'', CHR 0x0A, CHR 0x0A, CHR ''c'', CHR 0x0A]]"
proof -
  have h: "list_all stored_line [(''ab'', [CHR 0x0D, CHR 0x0A]), ([], [CHR 0x0A]), (''c'', [CHR 0x0A])]"
    by (simp add: stored_line_def)
  have n: "''f'' \<noteq> []" by simp
  from load_then_serialize [OF h n, of "buffer_of [''old''] 0 0"] h show ?thesis by simp
qed

text \<open>
  Outside the stored lines: a last line without terminator gets one, and carriage
  returns at the end of a line all go with its terminator.
\<close>

lemma load_then_serialize_other_files:
  "build_buffer (rows (editorOpen ''f'' (Inr ''abc'') E)) =
     Some [CHR ''a'', CHR ''b'', CHR ''c'', CHR 0x0A] \<and>
   build_buffer (rows (editorOpen ''f'' (Inr [CHR ''a'', CHR 0x0D, CHR 0x0D, CHR 0x0A]) E)) =
     Some [CHR ''a'', CHR 0x0A]"
  by (simp add: editorOpen_def editorFreeRows_def read_rows.simps getline_def editorAppendRow_def)

text \<open>
  The row that Enter at column 0 leaves behind a NUL byte has a size beyond its buffer:
  a save then reads outside the buffer.
\<close>

lemma editorSave_after_cut_row:
  "build_buffer [mk_row [], \<lparr>size_row = 3, chars = ''a''\<rparr>] = None"
  by (simp add: mk_row_def)

text \<open>
  Claim C1, as the code has it. \<open>editorOpen\<close> on a path that cannot be opened returns to its
  caller with the message \<open>Could not open: ...\<close> in the status line; it has freed the rows
  before trying to open the file, so the buffer is empty afterwards, and the file name is
  the path given. The cursor, the viewport and the dirty flag are as before.
\<close>

theorem editorOpen_failure_empties_buffer:
  "editorOpen fname (Inl err) E =
     E\<lparr>rows := [], filename := take 511 fname,
       statusmsg := take 79 (''Could not open: '' @ err)\<rparr>"
  by (simp add: editorOpen_def editorFreeRows_def)

text \<open>
  Claim C1 as stated fails: a buffer with the row \<open>abc\<close> has no row after a failed load.
\<close>

theorem editorOpen_failure_counterexample:
  "rows (buffer_of [''abc''] 0 0) = [mk_row ''abc''] \<and>
   rows (editorOpen ''missing'' (Inl ''No such file or directory'') (buffer_of [''abc''] 0 0)) = [] \<and>
   numrows (buffer_of [''abc''] 0 0) = 1 \<and>
   numrows (editorOpen ''missing'' (Inl ''No such file or directory'') (buffer_of [''abc''] 0 0)) = 0"
  by (simp add: editorOpen_def editorFreeRows_def buffer_of_def numrows_def)

section \<open>Escape sequences\<close>

text \<open>
  Claim C8, as the code has it. After ESC and \<open>[\<close>, the letters A, B, C, D give the arrow
  keys Up, Down, Right, Left, and \<open>3\<close> followed by \<open>~\<close> gives the Delete key 127; any other
  digit followed by \<open>~\<close> gives the ESC key. Whenever a byte that the decoder waits for after
  ESC does not arrive (the read times out or fails, or the input is used up) the decoder
  returns the ESC key at once.
\<close>

theorem editorReadKey_escape_sequences:
  "editorReadKey sg (Got ESC # Got CHR ''['' # Got CHR ''A'' # rs) = Return ARROW_UP rs \<and>
   editorReadKey sg (Got ESC # Got CHR ''['' # Got CHR ''B'' # rs) = Return ARROW_DOWN rs \<and>
   editorReadKey sg (Got ESC # Got CHR ''['' # Got CHR ''C'' # rs) = Return ARROW_RIGHT rs \<and>
   editorReadKey sg (Got ESC # Got CHR ''['' # Got CHR ''D'' # rs) = Return ARROW_LEFT rs \<and>
   editorReadKey sg (Got ESC # Got CHR ''['' # Got CHR ''3'' # Got CHR ''~'' # rs) = Return 127 rs \<and>
   (isdigit d \<and> d \<noteq> CHR ''3'' \<longrightarrow>
      editorReadKey sg (Got ESC # Got CHR ''['' # Got d # Got CHR ''~'' # rs) = Return 27 rs) \<and>
   (no_byte r \<longrightarrow> editorReadKey sg (Got ESC # r # rs) = Return 27 rs) \<and>
   (no_byte r \<longrightarrow> editorReadKey sg (Got ESC # Got b # r # rs) = Return 27 rs) \<and>
   (no_byte r \<and> isdigit d \<longrightarrow>
      editorReadKey sg (Got ESC # Got CHR ''['' # Got d # r # rs) = Return 27 rs) \<and>
   editorReadKey sg [Got ESC] = Return 27 [] \<and>
   editorReadKey sg [Got ESC, Got b] = Return 27 [] \<and>
   (isdigit d \<longrightarrow> editorReadKey sg [Got ESC, Got CHR ''['', Got d] = Return 27 [])"
  by (auto simp: editorReadKey_def ESC_def ARROW_UP_def ARROW_DOWN_def ARROW_RIGHT_def
      ARROW_LEFT_def isdigit_def no_byte_def split: read_result.splits)

text \<open>The sequence ESC \<open>[\<close> \<open>5\<close> \<open>~\<close>, and ESC followed by a timeout.\<close>

theorem editorReadKey_escape_sequences_witness:
  "isdigit CHR ''5'' \<and> CHR ''5'' \<noteq> CHR ''3'' \<and> no_byte Timeout \<and>
   editorReadKey False [Got ESC, Got CHR ''['', Got CHR ''5'', Got CHR ''~''] = Return 27 [] \<and>
   editorReadKey False [Got ESC, Timeout, Got CHR ''x''] = Return 27 [Got CHR ''x''] \<and>
   editorReadKey False [Got ESC, Got CHR ''['', Timeout] = Return 27 [] \<and>
   editorReadKey False [Got ESC, Got CHR ''['', Got CHR ''5'', Timeout] = Return 27 []"
proof -
  have h: "isdigit CHR ''5''" "CHR ''5'' \<noteq> CHR ''3''" "no_byte Timeout"
    by (simp_all add: isdigit_def no_byte_def)
  from editorReadKey_escape_sequences [of False "[]" "CHR ''5''" Timeout "CHR ''[''"]
       editorReadKey_escape_sequences [of False "[Got CHR ''x'']" "CHR ''5''" Timeout "CHR ''[''"]
       h
  show ?thesis by simp
qed

text \<open>
  Claim C8 as stated fails for the digits other than 3: ESC \<open>[\<close> \<open>5\<close> \<open>~\<close> is decoded as the
  ESC key, not as Delete.
\<close>

theorem editorReadKey_other_digit_counterexample:
  "editorReadKey False [Got ESC, Got CHR ''['', Got CHR ''5'', Got CHR ''~''] = Return 27 [] \<and>
   editorReadKey False [Got ESC, Got CHR ''['', Got CHR ''5'', Got CHR ''~''] \<noteq> Return 127 []"
  by (simp add: editorReadKey_def ESC_def)

section \<open>Cancelling the Save-as prompt\<close>

lemma editorReadKey_printable:
  assumes "printable c"
  shows "editorReadKey sg (Got c # rs) = Return (of_char c) rs"
proof -
  have "c \<noteq> ESC" using assms by (auto simp: printable_def ESC_def)
  moreover have "\<not> (128::int) \<le> of_char c"
  proof -
    have "(of_char c :: nat) < 128" using assms by (simp add: printable_def)
    then have "int (of_char c) < 128" by simp
    then show ?thesis by (simp add: of_nat_of_char)
  qed
  ultimately show ?thesis
    by (simp add: editorReadKey_def char_to_int_def)
qed

lemma printable_key:
  assumes "printable c"
  shows "\<not> iscntrl (of_char c) \<and> (of_char c :: int) < 128 \<and> (of_char c :: int) \<noteq> 13 \<and>
         (of_char c :: int) \<noteq> 127 \<and> (of_char c :: int) \<noteq> 8"
proof -
  have "(32::nat) \<le> of_char c" "(of_char c :: nat) < 127" using assms by (simp_all add: printable_def)
  then have "32 \<le> int (of_char c)" "int (of_char c) < 127" by simp_all
  then have "(32::int) \<le> of_char c" "(of_char c :: int) < 127" by (simp_all add: of_nat_of_char)
  then show ?thesis by (auto simp: iscntrl_def)
qed

lemma editorPrompt_loop_statusmsg:
  "editorPrompt_loop sg p fresh buf inp (E\<lparr>statusmsg := m\<rparr>) =
   editorPrompt_loop sg p fresh buf inp E"
  unfolding editorPrompt_loop.simps [of sg p fresh buf inp "E\<lparr>statusmsg := m\<rparr>"]
    editorPrompt_loop.simps [of sg p fresh buf inp E]
  by simp

lemma editorPrompt_loop_types:
  "list_all printable typed \<Longrightarrow>
   editorPrompt_loop sg p fresh buf (map Got typed @ rest) E =
   editorPrompt_loop sg p (if typed = [] then fresh else None) (buf @ typed) rest E"
proof (induction typed arbitrary: fresh buf E)
  case Nil
  show ?case by simp
next
  case (Cons c typed)
  then have c: "printable c" and t: "list_all printable typed" by simp_all
  have "editorPrompt_loop sg p fresh buf (map Got (c # typed) @ rest) E =
        editorPrompt_loop sg p None (buf @ [c]) (map Got typed @ rest)
          (E\<lparr>statusmsg := take 79 (p @ (case fresh of Some g \<Rightarrow> g | None \<Rightarrow> buf))\<rparr>)"
    using printable_key [OF c] editorReadKey_printable [OF c]
    by (subst editorPrompt_loop.simps) (simp add: Let_def)
  also have "\<dots> = editorPrompt_loop sg p None (buf @ [c]) (map Got typed @ rest) E"
    by (rule editorPrompt_loop_statusmsg)
  also have "\<dots> = editorPrompt_loop sg p (if typed = [] then None else None)
                      ((buf @ [c]) @ typed) rest E"
    by (rule Cons.IH [OF t])
  finally show ?case by simp
qed

lemma editorPrompt_loop_Escape:
  "editorPrompt_loop sg p fresh buf (Got ESC # Timeout # rest) E =
     Return (None, E\<lparr>statusmsg := take 79 (p @ (case fresh of Some g \<Rightarrow> g | None \<Rightarrow> buf))\<rparr>) rest"
  by (subst editorPrompt_loop.simps) (simp add: editorReadKey_def ESC_def iscntrl_def)

lemma editorPrompt_loop_Enter:
  "editorPrompt_loop sg p fresh buf (Got (CHR 0x0D) # rest) E =
     Return (if buf \<noteq> [] then Some buf else None,
             E\<lparr>statusmsg := take 79 (p @ (case fresh of Some g \<Rightarrow> g | None \<Rightarrow> buf))\<rparr>) rest"
  by (subst editorPrompt_loop.simps) (simp add: editorReadKey_def ESC_def char_to_int_def)

text \<open>
  Claim C9. With no file name bound, Ctrl-S opens the prompt; after any printable text,
  Escape ends \<open>editorProcessKeypress\<close> with the state unchanged but for the status message
  (so the file name stays unbound and the rows, the cursor and the dirty flag are as
  before) and with no system call on a file. The status message shows the label and the
  text typed, or the label and what the fresh buffer holds when nothing was typed. In the
  prompt itself, Escape returns no text whatever has been typed, and Enter returns the
  text when it is not empty and no text otherwise. Escape is the byte ESC followed by a
  read that times out.
\<close>

theorem save_as_prompt_cancelled_by_Escape:
  assumes "filename E = []" and "list_all printable typed"
  shows "editorProcessKeypress sg fs (Got (CHR 0x13) # map Got typed @ Got ESC # Timeout # rest) E =
           Next (E\<lparr>statusmsg :=
                     take 79 (''Save as: '' @
                              (if typed = [] then fresh_buffer fs ''Save as: '' else typed))\<rparr>)
                rest [] \<and>
         editorPrompt_loop sg p fresh buf (Got ESC # Timeout # rest) E =
           Return (None,
                   E\<lparr>statusmsg := take 79 (p @ (case fresh of Some g \<Rightarrow> g | None \<Rightarrow> buf))\<rparr>)
                  rest \<and>
         editorPrompt_loop sg p fresh buf (Got (CHR 0x0D) # rest) E =
           Return (if buf \<noteq> [] then Some buf else None,
                   E\<lparr>statusmsg := take 79 (p @ (case fresh of Some g \<Rightarrow> g | None \<Rightarrow> buf))\<rparr>)
                  rest"
proof -
  have k: "editorReadKey sg (Got (CHR 0x13) # map Got typed @ Got ESC # Timeout # rest) =
           Return 19 (map Got typed @ Got ESC # Timeout # rest)"
    by (simp add: editorReadKey_def ESC_def char_to_int_def)
  have pr: "editorPrompt sg (fresh_buffer fs ''Save as: '') ''Save as: ''
              (map Got typed @ Got ESC # Timeout # rest) E =
            Return (None,
                    E\<lparr>statusmsg :=
                        take 79 (''Save as: '' @
                                 (if typed = [] then fresh_buffer fs ''Save as: '' else typed))\<rparr>)
                   rest"
    unfolding editorPrompt_def editorPrompt_loop_types [OF assms(2)]
    by (simp add: editorPrompt_loop_Escape)
  have "editorProcessKeypress sg fs (Got (CHR 0x13) # map Got typed @ Got ESC # Timeout # rest) E =
           Next (E\<lparr>statusmsg :=
                     take 79 (''Save as: '' @
                              (if typed = [] then fresh_buffer fs ''Save as: '' else typed))\<rparr>)
                rest []"
    unfolding editorProcessKeypress_def k using assms(1) by (simp add: pr)
  then show ?thesis
    by (simp add: editorPrompt_loop_Escape editorPrompt_loop_Enter)
qed

text \<open>The scenario of the specification: the text \<open>out.txt\<close>, then Escape, on a modified buffer.\<close>

theorem save_as_prompt_cancelled_by_Escape_witness:
  "filename ((buffer_of [''abc''] 0 1)\<lparr>dirty := 1\<rparr>) = [] \<and> list_all printable ''out.txt'' \<and>
   editorProcessKeypress False test_world
     (Got (CHR 0x13) # map Got ''out.txt'' @ [Got ESC, Timeout]) ((buffer_of [''abc''] 0 1)\<lparr>dirty := 1\<rparr>) =
     Next ((buffer_of [''abc''] 0 1)\<lparr>dirty := 1, statusmsg := ''Save as: out.txt''\<rparr>) [] []"
proof -
  have f: "filename ((buffer_of [''abc''] 0 1)\<lparr>dirty := 1\<rparr>) = []"
    by (simp add: buffer_of_def initEditor_def)
  have t: "list_all printable ''out.txt''" by (simp add: printable_def)
  from save_as_prompt_cancelled_by_Escape [OF f t, of False test_world "[]"] f t
  show ?thesis by simp
qed

text \<open>Escape at once: the status message shows what the fresh buffer holds.\<close>

lemma save_as_prompt_cancelled_at_once:
  "editorProcessKeypress False test_world [Got (CHR 0x13), Got ESC, Timeout] (buffer_of [''abc''] 0 1) =
     Next ((buffer_of [''abc''] 0 1)\<lparr>statusmsg := ''Save as: #!''\<rparr>) [] []"
  by (simp add: editorProcessKeypress_def editorReadKey_def ESC_def char_to_int_def iscntrl_def
      editorPrompt_def editorPrompt_loop.simps test_world_def buffer_of_def initEditor_def)

section \<open>Keys without a binding\<close>

text \<open>
  On the key, the \<^verbatim>\<open>int\<close> that \<open>editorReadKey\<close> returns. For a key that is none of Enter,
  Backspace (127 or 8), Ctrl-S, Ctrl-O, Ctrl-X and the four arrows: when it is a control
  character or is 128 or more, \<open>editorProcessKeypress\<close> returns the state as it was;
  otherwise, and only then, it inserts the key with \<open>editorInsertChar\<close>.
\<close>

lemma editorProcessKeypress_unbound_key:
  assumes "editorReadKey sg inp = Return c rest"
    and "c \<notin> {13, 127, 8, 19, 15, 24, ARROW_UP, ARROW_DOWN, ARROW_RIGHT, ARROW_LEFT}"
  shows "(iscntrl c \<or> 128 \<le> c \<longrightarrow> editorProcessKeypress sg fs inp E = Next E rest []) \<and>
         (\<not> iscntrl c \<and> c < 128 \<longrightarrow>
            editorProcessKeypress sg fs inp E = edited (editorInsertChar c E) rest)"
  using assms by (auto simp: editorProcessKeypress_def iscntrl_def)

text \<open>
  On the byte read. A byte of value 128 or more is the key of the same value where plain
  \<^verbatim>\<open>char\<close> is unsigned, and nothing changes; where plain \<^verbatim>\<open>char\<close> is signed it is a negative
  key, below 128 and not a control character, and it is inserted.
\<close>

lemma high_byte_key:
  assumes "(128::int) \<le> of_char b"
  shows "editorReadKey sg (Got b # rest) =
           Return (if sg then of_char b - 256 else of_char b) rest"
proof -
  have "b \<noteq> ESC" using assms by (auto simp: ESC_def)
  then show ?thesis using assms by (simp add: editorReadKey_def char_to_int_def)
qed

lemma of_char_int_less_256: "(of_char b :: int) < 256"
proof -
  have "(of_char b :: nat) < 256" by (rule nat_of_char_less_256)
  then have "int (of_char b) < 256" by simp
  then show ?thesis by (simp add: of_nat_of_char)
qed

lemma high_byte_unsigned_char:
  assumes "(128::int) \<le> of_char b"
  shows "editorProcessKeypress False fs (Got b # rest) E = Next E rest []"
proof -
  have k: "editorReadKey False (Got b # rest) = Return (of_char b) rest"
    using high_byte_key [OF assms, of False rest] by simp
  have "(of_char b :: int) \<notin> {13, 127, 8, 19, 15, 24, ARROW_UP, ARROW_DOWN, ARROW_RIGHT, ARROW_LEFT}"
    using assms of_char_int_less_256 [of b]
    by (auto simp: ARROW_UP_def ARROW_DOWN_def ARROW_RIGHT_def ARROW_LEFT_def)
  from editorProcessKeypress_unbound_key [OF k this] assms show ?thesis by simp
qed

lemma high_byte_signed_char:
  assumes "(128::int) \<le> of_char b"
  shows "editorProcessKeypress True fs (Got b # rest) E =
           edited (editorInsertChar (of_char b - 256) E) rest"
proof -
  have k: "editorReadKey True (Got b # rest) = Return (of_char b - 256) rest"
    using high_byte_key [OF assms, of True rest] by simp
  have neg: "(of_char b :: int) - 256 < 0" using of_char_int_less_256 [of b] by simp
  then have "(of_char b :: int) - 256 \<notin>
      {13, 127, 8, 19, 15, 24, ARROW_UP, ARROW_DOWN, ARROW_RIGHT, ARROW_LEFT}"
    by (auto simp: ARROW_UP_def ARROW_DOWN_def ARROW_RIGHT_def ARROW_LEFT_def)
  from editorProcessKeypress_unbound_key [OF k this] neg show ?thesis
    by (simp add: iscntrl_def)
qed

text \<open>
  Claim C10. In Normal mode a byte of value 128 or more is bound to no action and should
  leave the rows, the cursor and the dirty flag unchanged; the source tests
  \<^verbatim>\<open>!iscntrl(c) && c < 128\<close> before it inserts. \<open>editorReadKey\<close> returns the byte through a
  plain \<^verbatim>\<open>char\<close>: where plain \<^verbatim>\<open>char\<close> is signed, the bytes \<open>0xC8\<close> and \<open>0x80\<close> are the keys -56
  and -128, the test holds, and the byte is inserted into the row \<open>abc\<close> at the cursor.
  Where plain \<^verbatim>\<open>char\<close> is unsigned the key is 200 and nothing changes. The C standard leaves
  \<^verbatim>\<open>iscntrl\<close> of a negative value other than \<^verbatim>\<open>EOF\<close> undefined.
\<close>

theorem signed_char_high_byte_is_inserted:
  "editorReadKey True [Got (CHR 0xC8)] = Return (- 56) [] \<and>
   editorProcessKeypress True test_world [Got (CHR 0xC8)] (buffer_of [''abc''] 0 1) =
     Next ((buffer_of [[CHR ''a'', CHR 0xC8, CHR ''b'', CHR ''c'']] 0 2)\<lparr>dirty := 1\<rparr>) [] [] \<and>
   editorReadKey True [Got (CHR 0x80)] = Return (- 128) [] \<and>
   editorProcessKeypress True test_world [Got (CHR 0x80)] (buffer_of [''abc''] 0 1) =
     Next ((buffer_of [[CHR ''a'', CHR 0x80, CHR ''b'', CHR ''c'']] 0 2)\<lparr>dirty := 1\<rparr>) [] [] \<and>
   editorReadKey False [Got (CHR 0xC8)] = Return 200 [] \<and>
   editorProcessKeypress False test_world [Got (CHR 0xC8)] (buffer_of [''abc''] 0 1) =
     Next (buffer_of [''abc''] 0 1) [] []"
  by (simp add: editorReadKey_def ESC_def char_to_int_def editorProcessKeypress_def iscntrl_def
      ARROW_UP_def ARROW_DOWN_def ARROW_RIGHT_def ARROW_LEFT_def edited_def
      editorInsertChar_def numrows_def buffer_of_def initEditor_def mk_row_def char_of_eq_iff)

section \<open>The dirty flag\<close>

lemma editorInsertChar_sets_dirty:
  assumes "valid E"
  shows "\<exists>E'. editorInsertChar c E = Some E' \<and> dirty E' = 1"
proof -
  have ok: "rows_ok E" and cur: "cursor_ok E" using assms by (simp_all add: valid_def)
  show ?thesis
  proof (cases "cy E = numrows E")
    case True
    with cur have "cx E = 0" by (simp add: cursor_ok_def row_length_def)
    with True show ?thesis
      by (simp add: editorInsertChar_def editorAppendRow_def numrows_def Let_def nth_append)
  next
    case False
    with cur have k: "0 \<le> cy E" "nat (cy E) < length (rows E)" "cy E < numrows E"
      by (auto simp: cursor_ok_def numrows_def)
    have sz: "size_row (rows E ! nat (cy E)) = int (length (chars (rows E ! nat (cy E))))"
      using k by (intro rows_ok_nth [OF ok])
    from cur k have "0 \<le> cx E" "cx E \<le> size_row (rows E ! nat (cy E))"
      by (simp_all add: cursor_ok_def row_length_def)
    with False k sz show ?thesis
      by (simp add: editorInsertChar_def Let_def)
  qed
qed

lemma editorDelChar_sets_dirty:
  assumes "valid E"
  shows "\<exists>E'. editorDelChar E = Some E' \<and> (E' = E \<or> dirty E' = 1)"
proof -
  have ok: "rows_ok E" and cur: "cursor_ok E" using assms by (simp_all add: valid_def)
  show ?thesis
  proof (cases "cy E = numrows E \<or> (cx E = 0 \<and> cy E = 0)")
    case True
    then show ?thesis by (auto simp: editorDelChar_def)
  next
    case False
    with cur have k: "0 \<le> cy E" "nat (cy E) < length (rows E)" "cy E < numrows E"
      by (auto simp: cursor_ok_def numrows_def)
    have sz: "size_row (rows E ! nat (cy E)) = int (length (chars (rows E ! nat (cy E))))"
      using k by (intro rows_ok_nth [OF ok])
    from cur k have cxr: "0 \<le> cx E" "cx E \<le> size_row (rows E ! nat (cy E))"
      by (simp_all add: cursor_ok_def row_length_def)
    show ?thesis
    proof (cases "cx E > 0")
      case True
      with False k sz cxr show ?thesis
        by (simp add: editorDelChar_def Let_def)
    next
      case c0: False
      with cxr False k have cy: "0 < cy E" by auto
      have "nat (cy E - 1) < length (rows E)" using k cy by auto
      then have sp: "size_row (rows E ! nat (cy E - 1)) = int (length (chars (rows E ! nat (cy E - 1))))"
        by (intro rows_ok_nth [OF ok])
      from c0 False k sz cxr cy sp show ?thesis
        by (simp add: editorDelChar_def Let_def)
    qed
  qed
qed

lemma editorInsertNewline_sets_dirty:
  assumes "valid E" and "cy E < numrows E"
  shows "\<exists>E'. editorInsertNewline E = Some E' \<and> dirty E' = 1"
proof (cases "cx E = 0")
  case True
  from editorInsertNewline_at_column_0 [OF assms(1) True assms(2)] show ?thesis by simp
next
  case False
  with assms(1) have "0 < cx E" by (simp add: valid_def cursor_ok_def)
  from editorInsertNewline_splits_row [OF assms(1) this assms(2)] show ?thesis by simp
qed

lemma build_buffer_rows_ok:
  "list_all (\<lambda>r. size_row r = int (length (chars r))) rs \<Longrightarrow> \<exists>buf. build_buffer rs = Some buf"
  by (induction rs) auto

lemma editorSave_defined: "rows_ok E \<Longrightarrow> \<exists>ret Es cs. editorSave a io E = Some (ret, Es, cs)"
  using build_buffer_rows_ok [of "rows E"]
  by (auto simp: editorSave_def Let_def rows_ok_def split: option.splits save_result.splits)

lemma editorSave_dirty:
  assumes "editorSave a io E = Some (ret, Es, cs)"
  shows "(ret = 1 \<longrightarrow>
            dirty Es = 0 \<and>
            (\<exists>p buf. io p = WriteOk \<and> build_buffer (rows E) = Some buf \<and> Write p buf \<in> set cs)) \<and>
         (ret \<noteq> 1 \<longrightarrow> dirty Es = dirty E)"
  using assms
  by (auto simp: editorSave_def Let_def split: option.splits if_splits save_result.splits)

lemma editorOpen_dirty:
  "dirty (editorOpen f (Inr content) E) = 0 \<and> dirty (editorOpen f (Inl err) E) = dirty E"
  by (simp add: editorOpen_def editorFreeRows_def Let_def)

lemma editorMoveCursor_dirty:
  "editorMoveCursor key E = Some E' \<Longrightarrow> dirty E' = dirty E"
  by (auto simp: editorMoveCursor_def clamp_cx_def split: if_splits)

lemma editorPrompt_loop_frame:
  "editorPrompt_loop sg p fresh buf inp E = Return (a, E') r \<Longrightarrow>
   E' = E\<lparr>statusmsg := statusmsg E'\<rparr>"
proof (induction "length inp" arbitrary: inp fresh buf E rule: less_induct)
  case less
  obtain c rest where k: "editorReadKey sg inp = Return c rest"
    using less.prems
    by (subst (asm) editorPrompt_loop.simps) (auto simp: Let_def split: io.splits)
  have sh: "length rest < length inp" using k by (rule editorReadKey_shorter)
  have rec: "E' = E\<lparr>statusmsg := statusmsg E'\<rparr>"
    if "editorPrompt_loop sg p g b rest (E\<lparr>statusmsg := m\<rparr>) = Return (a, E') r" for g b m
  proof -
    from less.hyps [OF sh that] have "E' = E\<lparr>statusmsg := m\<rparr>\<lparr>statusmsg := statusmsg E'\<rparr>" .
    then show ?thesis by simp
  qed
  have here: "E' = E\<lparr>statusmsg := statusmsg E'\<rparr>" if "E' = E\<lparr>statusmsg := m\<rparr>" for m
    using that by simp
  from less.prems show ?case
    unfolding editorPrompt_loop.simps [of sg p fresh buf inp E] k Let_def
    by (auto split: if_splits dest: rec here)
qed

lemma editorInsertChar_Some_dirty: "editorInsertChar c E = Some E' \<Longrightarrow> dirty E' = 1"
  by (auto simp: editorInsertChar_def Let_def editorAppendRow_def split: if_splits)

lemma editorInsertNewline_Some_dirty: "editorInsertNewline E = Some E' \<Longrightarrow> dirty E' = 1"
  by (auto simp: editorInsertNewline_def Let_def editorAppendRow_def split: if_splits)

lemma editorDelChar_Some_dirty: "editorDelChar E = Some E' \<Longrightarrow> E' = E \<or> dirty E' = 1"
  by (auto simp: editorDelChar_def Let_def split: if_splits)

lemma editorSave_clears:
  assumes "editorSave a io E = Some (ret, E3, calls)"
    and "dirty E \<noteq> 0" and "dirty E3 = 0"
  shows "\<exists>p buf. Write p buf \<in> set calls \<and> io p = WriteOk"
  using assms
  by (auto simp: editorSave_def Let_def split: option.splits if_splits save_result.splits)

text \<open>
  Claim C7, as the code has it. In a valid state \<open>editorInsertChar\<close> sets the dirty flag,
  \<open>editorDelChar\<close> sets it unless it leaves the state as it was, and \<open>editorInsertNewline\<close>
  sets it on every row of the buffer; \<open>editorAppendRow\<close> sets it. A successful load clears
  it and a failed load leaves it as it was; a save returns whenever every row's size is
  the number of its bytes, a save that returns 1 has written the buffer and clears the
  flag, and a save that fails leaves it as it was. One key never clears a set
  flag unless a \<^verbatim>\<open>write\<close> of a save succeeded or a file was opened and read. The flag is not
  a comparison of the buffer with the saved content.
\<close>

theorem dirty_flag_updates:
  "(valid E \<longrightarrow> (\<exists>E'. editorInsertChar c E = Some E' \<and> dirty E' = 1)) \<and>
   (valid E \<longrightarrow> (\<exists>E'. editorDelChar E = Some E' \<and> (E' = E \<or> dirty E' = 1))) \<and>
   (valid E \<and> cy E < numrows E \<longrightarrow> (\<exists>E'. editorInsertNewline E = Some E' \<and> dirty E' = 1)) \<and>
   dirty (editorAppendRow s n E) = 1 \<and>
   dirty (editorOpen f (Inr content) E) = 0 \<and>
   dirty (editorOpen f (Inl err) E) = dirty E \<and>
   (rows_ok E \<longrightarrow> (\<exists>ret Es cs. editorSave a io E = Some (ret, Es, cs))) \<and>
   (editorSave a io E = Some (ret, Es, cs) \<and> ret = 1 \<longrightarrow>
      dirty Es = 0 \<and>
      (\<exists>p buf. io p = WriteOk \<and> build_buffer (rows E) = Some buf \<and> Write p buf \<in> set cs)) \<and>
   (editorSave a io E = Some (ret, Es, cs) \<and> ret \<noteq> 1 \<longrightarrow> dirty Es = dirty E) \<and>
   (editorProcessKeypress sg fs inp E = Next E' rest calls \<and> dirty E \<noteq> 0 \<and> dirty E' = 0 \<longrightarrow>
      (\<exists>p buf. Write p buf \<in> set calls \<and> fs_write fs p = WriteOk) \<or>
      (\<exists>p bytes. Fopen p \<in> set calls \<and> fs_read fs p = Inr bytes))"
proof -
  have only: "(\<exists>p buf. Write p buf \<in> set calls \<and> fs_write fs p = WriteOk) \<or>
      (\<exists>p bytes. Fopen p \<in> set calls \<and> fs_read fs p = Inr bytes)"
    if run: "editorProcessKeypress sg fs inp E = Next E' rest calls"
      and d: "dirty E \<noteq> 0" "dirty E' = 0"
  proof -
    obtain c r0 where k: "editorReadKey sg inp = Return c r0"
      using run by (auto simp: editorProcessKeypress_def split: io.splits)
    have pf: "dirty E1 = dirty E0 \<and> filename E1 = filename E0"
      if "editorPrompt sg j q r E0 = Return (x, E1) r1" for j q x E0 E1 r r1
      using editorPrompt_loop_frame [OF that [unfolded editorPrompt_def]]
      by (metis editorConfig.select_convs(8,9) editorConfig.surjective editorConfig.update_convs(10))
    consider (quit) "c = 17" | (enter) "c \<noteq> 17" "c = of_char CHR 0x0D"
      | (del) "c \<noteq> 17" "c \<noteq> of_char CHR 0x0D" "c = 127 \<or> c = 8"
      | (save) "c = 19" | (opn) "c = 15" | (exit) "c = 24"
      | (other) "c \<noteq> 17" "c \<noteq> of_char CHR 0x0D" "\<not> (c = 127 \<or> c = 8)" "c \<noteq> 19" "c \<noteq> 15" "c \<noteq> 24"
      by auto
    then show ?thesis
    proof cases
      case quit
      with run k d show ?thesis by (simp add: editorProcessKeypress_def)
    next
      case enter
      with run k d show ?thesis
        by (auto simp: editorProcessKeypress_def edited_def split: option.splits
            dest: editorInsertNewline_Some_dirty)
    next
      case del
      with run k d show ?thesis
        by (auto simp: editorProcessKeypress_def edited_def split: option.splits
            dest: editorDelChar_Some_dirty)
    next
      case save
      show ?thesis
      proof (cases "filename E = []")
        case True
        show ?thesis
        proof (cases "editorPrompt sg (fresh_buffer fs ''Save as: '') ''Save as: '' r0 E")
          case (Return x r1)
          obtain ans E1 where x: "x = (ans, E1)" by (cases x)
          have fr: "dirty E1 = dirty E" using pf Return x by blast
          show ?thesis
          proof (cases ans)
            case None
            with run k save True Return x have "E' = E1"
              by (simp add: editorProcessKeypress_def)
            with fr d show ?thesis by simp
          next
            case (Some fn)
            with run k save True Return x obtain ret where
              "editorSave (Some (take 511 fn)) (fs_write fs) (E1\<lparr>filename := take 511 fn\<rparr>) =
                 Some (ret, E', calls)"
              by (auto simp: editorProcessKeypress_def Let_def split: option.splits prod.splits)
            from editorSave_clears [OF this] fr d show ?thesis by simp
          qed
        next
          case Died
          with run k save True show ?thesis by (simp add: editorProcessKeypress_def)
        next
          case Waiting
          with run k save True show ?thesis by (simp add: editorProcessKeypress_def)
        qed
      next
        case False
        with run k save obtain ret where
          "editorSave (Some (filename E)) (fs_write fs) E = Some (ret, E', calls)"
          by (auto simp: editorProcessKeypress_def split: option.splits prod.splits)
        from editorSave_clears [OF this] d show ?thesis by simp
      qed
    next
      case opn
      from run k opn d show ?thesis
        apply (auto simp: editorProcessKeypress_def Let_def
              split: io.splits option.splits prod.splits dest: pf)
        subgoal for E1 fn
          by (cases "fs_read fs fn") (auto simp: editorOpen_def editorFreeRows_def Let_def dest: pf)
        done
    next
      case exit
      from run k exit d show ?thesis
        apply (auto simp: editorProcessKeypress_def Let_def
            split: io.splits option.splits prod.splits if_splits)
         apply (metis pf)+
        done
    next
      case other
      from run k other d show ?thesis
        by (auto simp: editorProcessKeypress_def edited_def split: option.splits if_splits
            dest: editorInsertChar_Some_dirty editorMoveCursor_dirty)
    qed
  qed
  show ?thesis
    using editorInsertChar_sets_dirty [of E c] editorDelChar_sets_dirty [of E]
      editorInsertNewline_sets_dirty [of E] editorSave_dirty [of a io E ret Es cs]
      editorSave_defined [of E a io]
      editorOpen_dirty [of f content E err] only
    by (simp add: editorAppendRow_def)
qed

text \<open>The row \<open>a\<close> with the cursor at its end, and Ctrl-S with a file name bound.\<close>

theorem dirty_flag_updates_witness:
  "valid (buffer_of [''a''] 0 1) \<and> cy (buffer_of [''a''] 0 1) < numrows (buffer_of [''a''] 0 1) \<and>
   dirty (buffer_of [''a''] 0 1) = 0 \<and>
   map_option dirty (editorInsertChar (of_char CHR ''x'') (buffer_of [''a''] 0 1)) = Some 1 \<and>
   map_option dirty (editorDelChar (buffer_of [''a''] 0 1)) = Some 1 \<and>
   map_option dirty (editorInsertNewline (buffer_of [''a''] 0 1)) = Some 1 \<and>
   dirty ((buffer_of [''a''] 0 1)\<lparr>dirty := 1, filename := ''f''\<rparr>) \<noteq> 0 \<and>
   editorProcessKeypress False test_world [Got (CHR 0x13)]
     ((buffer_of [''a''] 0 1)\<lparr>dirty := 1, filename := ''f''\<rparr>) =
     Next ((buffer_of [''a''] 0 1)\<lparr>dirty := 0, filename := ''f'', statusmsg := ''Saved to f''\<rparr>) []
       [Open ''f'', Ftruncate ''f'', Write ''f'' [CHR ''a'', CHR 0x0A]] \<and>
   fs_write test_world ''f'' = WriteOk"
proof -
  have v: "valid (buffer_of [''a''] 0 1)"
    "cy (buffer_of [''a''] 0 1) < numrows (buffer_of [''a''] 0 1)"
    by (simp_all add: buffer_of_def initEditor_def mk_row_def valid_def rows_ok_def cursor_ok_def
        row_length_def numrows_def)
  have run: "editorProcessKeypress False test_world [Got (CHR 0x13)]
     ((buffer_of [''a''] 0 1)\<lparr>dirty := 1, filename := ''f''\<rparr>) =
     Next ((buffer_of [''a''] 0 1)\<lparr>dirty := 0, filename := ''f'', statusmsg := ''Saved to f''\<rparr>) []
       [Open ''f'', Ftruncate ''f'', Write ''f'' [CHR ''a'', CHR 0x0A]]"
    by (simp add: editorProcessKeypress_def editorReadKey_def ESC_def char_to_int_def
        editorSave_def test_world_def buffer_of_def initEditor_def mk_row_def)
  have ops: "map_option dirty (editorInsertChar (of_char CHR ''x'') (buffer_of [''a''] 0 1)) = Some 1"
    "map_option dirty (editorDelChar (buffer_of [''a''] 0 1)) = Some 1"
    "map_option dirty (editorInsertNewline (buffer_of [''a''] 0 1)) = Some 1"
    by (simp_all add: editorInsertChar_def editorDelChar_def editorInsertNewline_def
        editorAppendRow_def shift_rows_down.simps numrows_def buffer_of_def initEditor_def mk_row_def)
  from dirty_flag_updates [of "buffer_of [''a''] 0 1" "of_char CHR ''x''"] v run ops
  show ?thesis by (simp add: test_world_def buffer_of_def initEditor_def)
qed

text \<open>
  Claim C7 as stated fails in one direction: after a successful save, inserting a byte
  and deleting it again leaves the buffer equal to what was saved, and the flag set.
\<close>

theorem dirty_after_insert_and_delete_counterexample:
  "editorSave (Some ''f'') (fs_write test_world)
     ((buffer_of [''a''] 0 1)\<lparr>dirty := 1, filename := ''f''\<rparr>) =
     Some (1, (buffer_of [''a''] 0 1)\<lparr>dirty := 0, filename := ''f'', statusmsg := ''Saved to f''\<rparr>,
           [Open ''f'', Ftruncate ''f'', Write ''f'' [CHR ''a'', CHR 0x0A]]) \<and>
   Option.bind
     (editorInsertChar (of_char CHR ''x'')
        ((buffer_of [''a''] 0 1)\<lparr>dirty := 0, filename := ''f'', statusmsg := ''Saved to f''\<rparr>))
     editorDelChar =
     Some ((buffer_of [''a''] 0 1)\<lparr>dirty := 1, filename := ''f'', statusmsg := ''Saved to f''\<rparr>) \<and>
   build_buffer (rows ((buffer_of [''a''] 0 1)\<lparr>dirty := 1, filename := ''f'', statusmsg := ''Saved to f''\<rparr>)) =
     Some [CHR ''a'', CHR 0x0A] \<and>
   dirty ((buffer_of [''a''] 0 1)\<lparr>dirty := 1, filename := ''f'', statusmsg := ''Saved to f''\<rparr>) = 1"
  by (simp add: editorSave_def test_world_def editorInsertChar_def editorDelChar_def numrows_def
      buffer_of_def initEditor_def mk_row_def)

end
